theory Spec2Isabelle
  imports Main "HOL-Library.AList"
begin

section \<open>Geometry (model/geo.ts)\<close>

text \<open>
  \<^verbatim>\<open>Coordinate = { x, y }\<close> and \<^verbatim>\<open>Size = { width, height }\<close>. The numbers of the
  source are taken to be integers, as every caller in the repository supplies them.
\<close>

type_synonym Coordinate = "int \<times> int"
type_synonym Size = "int \<times> int"

section \<open>World objects (world.object.ts)\<close>

type_synonym WorldObjectID = string

datatype WorldObjectLayer = UNDERGROUND | GROUND | OVERGROUND

text \<open>The numeric value of the enum, which the world adds to the column index.\<close>

fun layerIndex :: "WorldObjectLayer \<Rightarrow> nat" where
  "layerIndex UNDERGROUND = 0"
| "layerIndex GROUND = 1"
| "layerIndex OVERGROUND = 2"

definition WorldObjectLayerCount :: nat where
  "WorldObjectLayerCount = 3"

text \<open>
  The fields of \<^verbatim>\<open>WorldObject\<close> that the world reads or that its callbacks change.
  Emitting \<^verbatim>\<open>initialized\<close>, \<^verbatim>\<open>placed\<close>, \<^verbatim>\<open>displaced\<close> and \<^verbatim>\<open>disposed\<close> changes none of
  them and is left out.
\<close>

record WorldObject =
  obj_id :: WorldObjectID
  obj_layer :: WorldObjectLayer
  obj_position :: Coordinate
  obj_size :: Size
  obj_isInitialized :: bool

text \<open>
  A slot of the buffer holds \<^verbatim>\<open>null\<close> or an identity; a read outside a row array
  gives \<^verbatim>\<open>undefined\<close>, and a write beyond its end leaves holes that read as
  \<^verbatim>\<open>undefined\<close>.
\<close>

datatype cell = Undefined | Null | Obj WorldObjectID

datatype error =
    NotInitialized
  | ObjectNotInitialized WorldObjectID
  | NoPosition
  | OutOfBounds int int
  | ErrorOverlappingObject WorldObjectID cell
  | TypeError

text \<open>
  \<^verbatim>\<open>WorldObject.init\<close>: nothing happens on an initialized object. \<^verbatim>\<open>WorldObject.placed\<close>
  throws on an object that is not initialized and stores the position otherwise.
  \<^verbatim>\<open>WorldObject.takeout\<close> only emits \<^verbatim>\<open>displaced\<close> and \<^verbatim>\<open>dispose\<close> only
  \<^verbatim>\<open>disposed\<close>: neither has a counterpart here.
\<close>

definition obj_init :: "WorldObject \<Rightarrow> WorldObject" where
  "obj_init ob = (if obj_isInitialized ob then ob else ob\<lparr>obj_isInitialized := True\<rparr>)"

definition placed :: "WorldObject \<Rightarrow> Coordinate \<Rightarrow> error + WorldObject" where
  "placed ob p =
     (if \<not> obj_isInitialized ob then Inl (ObjectNotInitialized (obj_id ob))
      else Inr (ob\<lparr>obj_position := p\<rparr>))"

section \<open>Event center (event.center.ts)\<close>

text \<open>
  The INTERSECT events pushed on the event subject, oldest first. No class of the
  repository subscribes to them, so emitting one has no further effect on the world.
\<close>

record EventCenter =
  intersectEvents :: "(WorldObjectID \<times> cell list) list"

record GameSession =
  eventCenter :: EventCenter

definition objectIntersect :: "EventCenter \<Rightarrow> WorldObjectID \<Rightarrow> cell list \<Rightarrow> EventCenter" where
  "objectIntersect ec initiatorObjectID objectIDs =
     (if objectIDs = [] then ec
      else ec\<lparr>intersectEvents := intersectEvents ec @ [(initiatorObjectID, objectIDs)]\<rparr>)"

section \<open>The world (world.ts)\<close>

text \<open>
  \<^verbatim>\<open>objects\<close> is a JavaScript \<^verbatim>\<open>Map\<close>: an association list in insertion order, read
  with \<open>map_of\<close>, written with \<open>AList.update\<close> and \<open>AList.delete\<close>. An object is stored
  under its own identity, and a callback that changes the object is written back
  under that key.
\<close>

record World =
  world_id :: string
  width :: int
  height :: int
  objects :: "(WorldObjectID \<times> WorldObject) list"
  gameSession :: "GameSession option"
  isInitialized :: bool
  wmap :: "cell list list"

text \<open>
  An operation returns what it returns or the error it throws, together with the
  world as it stands at that moment: a throw undoes nothing.
\<close>

type_synonym 'a outcome = "(error + 'a) \<times> World"

definition andThen :: "'a outcome \<Rightarrow> (World \<Rightarrow> 'b outcome) \<Rightarrow> 'b outcome" where
  "andThen r f = (case r of (Inl e, w) \<Rightarrow> (Inl e, w) | (Inr _, w) \<Rightarrow> f w)"

subsection \<open>Array accesses\<close>

text \<open>
  \<^verbatim>\<open>this._map[r][c]\<close>: a missing row makes the second index a TypeError, a missing
  column reads \<^verbatim>\<open>undefined\<close>.
\<close>

definition readSlot :: "cell list list \<Rightarrow> int \<Rightarrow> int \<Rightarrow> error + cell" where
  "readSlot m r c =
     (if 0 \<le> r \<and> r < int (length m) then
        (if 0 \<le> c \<and> c < int (length (m ! nat r)) then Inr (m ! nat r ! nat c)
         else Inr Undefined)
      else Inl TypeError)"

definition writeRow :: "cell list \<Rightarrow> nat \<Rightarrow> cell \<Rightarrow> cell list" where
  "writeRow row c v =
     (if c < length row then row[c := v]
      else row @ replicate (c - length row) Undefined @ [v])"

definition writeSlot :: "cell list list \<Rightarrow> nat \<Rightarrow> nat \<Rightarrow> cell \<Rightarrow> error + cell list list" where
  "writeSlot m r c v =
     (if r < length m then Inr (m[r := writeRow (m ! r) c v]) else Inl TypeError)"

subsection \<open>Constructor\<close>

definition newWorld :: "string \<Rightarrow> int \<Rightarrow> int \<Rightarrow> WorldObject list \<Rightarrow> World" where
  "newWorld i w h objs =
     \<lparr> world_id = i, width = w, height = h,
       objects = fold (\<lambda>ob al. AList.update (obj_id ob) ob al) objs [],
       gameSession = None, isInitialized = False,
       wmap = replicate (nat h) (replicate (nat (w * int WorldObjectLayerCount)) Null) \<rparr>"

subsection \<open>lookupByLayer\<close>

fun lookupSlots :: "cell list list \<Rightarrow> WorldObjectLayer \<Rightarrow> Coordinate list \<Rightarrow> error + cell list" where
  "lookupSlots m layer [] = Inr []"
| "lookupSlots m layer ((px, py) # ps) =
     (case readSlot m py (px + int (layerIndex layer)) of
        Inl e \<Rightarrow> Inl e
      | Inr c \<Rightarrow> (case lookupSlots m layer ps of Inl e \<Rightarrow> Inl e | Inr cs \<Rightarrow> Inr (c # cs)))"

definition lookupByLayer :: "World \<Rightarrow> WorldObjectLayer \<Rightarrow> Coordinate list \<Rightarrow> error + cell list" where
  "lookupByLayer w layer positions = lookupSlots (wmap w) layer positions"

subsection \<open>setMapCell\<close>

text \<open>
  The scan of an initialized world over the layer indices: the slot of the object's own
  layer is written, the slot of every other index is read and collected when it is not
  \<^verbatim>\<open>null\<close>.
\<close>

fun scanLayers :: "cell list list \<Rightarrow> nat \<Rightarrow> nat \<Rightarrow> WorldObjectLayer \<Rightarrow> WorldObjectID \<Rightarrow>
    nat list \<Rightarrow> cell list \<Rightarrow> error + (cell list list \<times> cell list)" where
  "scanLayers m r c layer i [] acc = Inr (m, acc)"
| "scanLayers m r c layer i (index # rest) acc =
     (if index = layerIndex layer then
        (case writeSlot m r (c + index) (Obj i) of
           Inl e \<Rightarrow> Inl e
         | Inr m' \<Rightarrow> scanLayers m' r c layer i rest acc)
      else
        (case readSlot m (int r) (int (c + index)) of
           Inl e \<Rightarrow> Inl e
         | Inr objectID \<Rightarrow>
             scanLayers m r c layer i rest (if objectID \<noteq> Null then acc @ [objectID] else acc)))"

definition notify :: "World \<Rightarrow> WorldObjectID \<Rightarrow> cell list \<Rightarrow> World" where
  "notify w i intersected =
     (case gameSession w of
        None \<Rightarrow> w
      | Some gs \<Rightarrow> w\<lparr>gameSession := Some (gs\<lparr>eventCenter := objectIntersect (eventCenter gs) i intersected\<rparr>)\<rparr>)"

definition setMapCell :: "World \<Rightarrow> Coordinate \<Rightarrow> WorldObjectLayer \<Rightarrow> WorldObjectID option \<Rightarrow> unit outcome" where
  "setMapCell w position layer v =
     (let (px, py) = position in
      if px < 0 \<or> py < 0 \<or> px \<ge> width w \<or> py \<ge> height w then (Inl (OutOfBounds px py), w)
      else case v of
        None \<Rightarrow>
          (case writeSlot (wmap w) (nat py) (nat px + layerIndex layer) Null of
             Inl e \<Rightarrow> (Inl e, w)
           | Inr m \<Rightarrow> (Inr (), w\<lparr>wmap := m\<rparr>))
      | Some i \<Rightarrow>
          (case readSlot (wmap w) py (px + int (layerIndex layer)) of
             Inl e \<Rightarrow> (Inl e, w)
           | Inr currentCellObjectID \<Rightarrow>
               if currentCellObjectID \<noteq> Null then (Inl (ErrorOverlappingObject i currentCellObjectID), w)
               else if \<not> isInitialized w then
                 (case writeSlot (wmap w) (nat py) (nat px + layerIndex layer) (Obj i) of
                    Inl e \<Rightarrow> (Inl e, w)
                  | Inr m \<Rightarrow> (Inr (), w\<lparr>wmap := m\<rparr>))
               else
                 (case scanLayers (wmap w) (nat py) (nat px) layer i [0..<WorldObjectLayerCount] [] of
                    Inl e \<Rightarrow> (Inl e, w)
                  | Inr (m, intersected) \<Rightarrow>
                      (Inr (), if intersected \<noteq> [] then notify (w\<lparr>wmap := m\<rparr>) i intersected
                               else w\<lparr>wmap := m\<rparr>))))"

subsection \<open>restructureMap\<close>

text \<open>
  The cells that \<^verbatim>\<open>for (x = x0; x < x1; x++) for (y = y0; y < y1; y++)\<close> visits, in
  the order of the visit, and the loop itself: one \<^verbatim>\<open>setMapCell\<close> per cell, stopping
  at the first throw.
\<close>

definition region :: "int \<Rightarrow> int \<Rightarrow> int \<Rightarrow> int \<Rightarrow> Coordinate list" where
  "region x0 x1 y0 y1 = List.product [x0..x1 - 1] [y0..y1 - 1]"

fun setCells :: "World \<Rightarrow> Coordinate list \<Rightarrow> WorldObjectLayer \<Rightarrow> WorldObjectID option \<Rightarrow> unit outcome" where
  "setCells w [] layer v = (Inr (), w)"
| "setCells w (p # ps) layer v =
     (case setMapCell w p layer v of
        (Inl e, w') \<Rightarrow> (Inl e, w')
      | (Inr _, w') \<Rightarrow> setCells w' ps layer v)"

definition returning :: "'b \<Rightarrow> 'a outcome \<Rightarrow> 'b outcome" where
  "returning b r = (case r of (Inl e, w) \<Rightarrow> (Inl e, w) | (Inr _, w) \<Rightarrow> (Inr b, w))"

definition outOfBounds :: "World \<Rightarrow> Size \<Rightarrow> Coordinate \<Rightarrow> bool" where
  "outOfBounds w sz newPosition =
     (case (sz, newPosition) of ((sw, sh), (newX, newY)) \<Rightarrow>
        newX < 0 \<or> newY < 0 \<or> newX + sw > width w \<or> newY + sh > height w)"

definition moveCells :: "World \<Rightarrow> WorldObjectID \<Rightarrow> WorldObjectLayer \<Rightarrow> Size \<Rightarrow> Coordinate \<Rightarrow> Coordinate \<Rightarrow> unit outcome" where
  "moveCells w i layer sz oldPosition newPosition =
     (case (sz, oldPosition, newPosition) of ((sw, sh), (oldX, oldY), (newX, newY)) \<Rightarrow>
        let overlapX = max oldX newX;
            overlapY = max oldY newY;
            overlapWidth = min (oldX + sw) (newX + sw) - overlapX;
            overlapHeight = min (oldY + sh) (newY + sh) - overlapY
        in
        andThen (setCells w (region oldX overlapX oldY (oldY + sh)) layer None) (\<lambda>w.
        andThen (setCells w (region (overlapX + overlapWidth) (oldX + sw) oldY (oldY + sh)) layer None) (\<lambda>w.
        andThen (setCells w (region overlapX (overlapX + overlapWidth) oldY overlapY) layer None) (\<lambda>w.
        andThen (setCells w (region overlapX (overlapX + overlapWidth) (overlapY + overlapHeight) (oldY + sh)) layer None) (\<lambda>w.
        andThen (setCells w (region newX overlapX newY (newY + sh)) layer (Some i)) (\<lambda>w.
        andThen (setCells w (region (overlapX + overlapWidth) (newX + sw) newY (newY + sh)) layer (Some i)) (\<lambda>w.
        andThen (setCells w (region overlapX (overlapX + overlapWidth) newY overlapY) layer (Some i)) (\<lambda>w.
        setCells w (region overlapX (overlapX + overlapWidth) (overlapY + overlapHeight) (newY + sh)) layer (Some i)))))))))"

text \<open>
  \<^verbatim>\<open>restructureMap\<close>: a call with neither position throws; a new position whose
  rectangle leaves the world makes the call return false before any cell is touched; an
  old position alone clears its rectangle, a new position alone writes its rectangle,
  and both run the eight loops of \<open>moveCells\<close> around the overlap rectangle.
\<close>

definition restructureMap :: "World \<Rightarrow> WorldObjectID \<Rightarrow> WorldObjectLayer \<Rightarrow> Size \<Rightarrow>
    Coordinate option \<Rightarrow> Coordinate option \<Rightarrow> bool outcome" where
  "restructureMap w i layer sz oldPosition newPosition =
     (case (oldPosition, newPosition) of
        (None, None) \<Rightarrow> (Inl NoPosition, w)
      | (Some (oldX, oldY), None) \<Rightarrow>
          returning True
            (setCells w (region oldX (oldX + fst sz) oldY (oldY + snd sz)) layer None)
      | (None, Some (newX, newY)) \<Rightarrow>
          if outOfBounds w sz (newX, newY) then (Inr False, w)
          else returning True
            (setCells w (region newX (newX + fst sz) newY (newY + snd sz)) layer (Some i))
      | (Some old, Some new) \<Rightarrow>
          if outOfBounds w sz new then (Inr False, w)
          else returning True (moveCells w i layer sz old new))"

subsection \<open>The public operations\<close>

definition initObject :: "World \<Rightarrow> WorldObject \<Rightarrow> World" where
  "initObject w ob = w\<lparr>objects := AList.update (obj_id ob) (obj_init ob) (objects w)\<rparr>"

definition installObject :: "World \<Rightarrow> WorldObject \<Rightarrow> bool outcome" where
  "installObject w ob =
     (if \<not> isInitialized w then (Inl NotInitialized, w)
      else if map_of (objects w) (obj_id ob) \<noteq> None then (Inr False, w)
      else (Inr True, initObject (w\<lparr>objects := AList.update (obj_id ob) ob (objects w)\<rparr>) ob))"

definition uninstallObject :: "World \<Rightarrow> WorldObjectID \<Rightarrow> bool outcome" where
  "uninstallObject w objectID =
     (if \<not> isInitialized w then (Inl NotInitialized, w)
      else case map_of (objects w) objectID of
        None \<Rightarrow> (Inr False, w)
      | Some ob \<Rightarrow> (Inr True, w\<lparr>objects := AList.delete (obj_id ob) (objects w)\<rparr>))"

definition placeObject :: "World \<Rightarrow> WorldObjectID \<Rightarrow> Coordinate option \<Rightarrow> Coordinate option outcome" where
  "placeObject w objectID position =
     (if \<not> isInitialized w then (Inl NotInitialized, w)
      else case map_of (objects w) objectID of
        None \<Rightarrow> (Inr None, w)
      | Some ob \<Rightarrow>
          let p = (case position of Some p \<Rightarrow> p | None \<Rightarrow> obj_position ob);
              w1 = w\<lparr>objects := AList.update (obj_id ob) ob (objects w)\<rparr>
          in (case restructureMap w1 (obj_id ob) (obj_layer ob) (obj_size ob) None (Some p) of
                (Inl e, w2) \<Rightarrow> (Inl e, w2)
              | (Inr isSuccessful, w2) \<Rightarrow>
                  if \<not> isSuccessful then (Inr None, w2)
                  else (case placed ob p of
                          Inl e \<Rightarrow> (Inl e, w2)
                        | Inr ob' \<Rightarrow>
                            (Inr (Some p), w2\<lparr>objects := AList.update (obj_id ob) ob' (objects w2)\<rparr>))))"

definition displaceObject :: "World \<Rightarrow> WorldObjectID \<Rightarrow> bool outcome" where
  "displaceObject w objectID =
     (if \<not> isInitialized w then (Inl NotInitialized, w)
      else case map_of (objects w) objectID of
        None \<Rightarrow> (Inr False, w)
      | Some ob \<Rightarrow>
          (case restructureMap w (obj_id ob) (obj_layer ob) (obj_size ob) (Some (obj_position ob)) None of
             (Inl e, w2) \<Rightarrow> (Inl e, w2)
           | (Inr isSuccessful, w2) \<Rightarrow>
               if \<not> isSuccessful then (Inr False, w2) else (Inr True, w2)))"

definition installAndPlaceObject :: "World \<Rightarrow> WorldObject \<Rightarrow> Coordinate option outcome" where
  "installAndPlaceObject w ob =
     (case installObject w ob of
        (Inl e, w1) \<Rightarrow> (Inl e, w1)
      | (Inr ok, w1) \<Rightarrow> if \<not> ok then (Inr None, w1) else placeObject w1 (obj_id ob) None)"

definition uninstallAndDisplaceObject :: "World \<Rightarrow> WorldObjectID \<Rightarrow> bool outcome" where
  "uninstallAndDisplaceObject w objectID =
     (case uninstallObject w objectID of
        (Inl e, w1) \<Rightarrow> (Inl e, w1)
      | (Inr ok, w1) \<Rightarrow> if \<not> ok then (Inr False, w1) else displaceObject w1 objectID)"

definition moveObject :: "World \<Rightarrow> WorldObjectID \<Rightarrow> Coordinate \<Rightarrow> Coordinate option outcome" where
  "moveObject w objectID newPosition =
     (if \<not> isInitialized w then (Inr None, w)
      else case map_of (objects w) objectID of
        None \<Rightarrow> (Inr None, w)
      | Some ob \<Rightarrow>
          (case restructureMap w (obj_id ob) (obj_layer ob) (obj_size ob)
                  (Some (obj_position ob)) (Some newPosition) of
             (Inl e, w2) \<Rightarrow> (Inl e, w2)
           | (Inr ok, w2) \<Rightarrow> if \<not> ok then (Inr None, w2) else (Inr (Some newPosition), w2)))"

text \<open>
  \<^verbatim>\<open>init\<close>: the session is bound when one is given, the world is marked initialized,
  and every object of the registry is initialized and placed at its own position, in
  the order of the registry.
\<close>

fun initObjects :: "World \<Rightarrow> WorldObjectID list \<Rightarrow> unit outcome" where
  "initObjects w [] = (Inr (), w)"
| "initObjects w (k # ks) =
     (case map_of (objects w) k of
        None \<Rightarrow> initObjects w ks
      | Some ob \<Rightarrow>
          (case placeObject (initObject w ob) (obj_id ob) None of
             (Inl e, w') \<Rightarrow> (Inl e, w')
           | (Inr _, w') \<Rightarrow> initObjects w' ks))"

definition init :: "World \<Rightarrow> GameSession option \<Rightarrow> unit outcome" where
  "init w session =
     (let w1 = (case session of Some gs \<Rightarrow> w\<lparr>gameSession := Some gs\<rparr> | None \<Rightarrow> w);
          w2 = w1\<lparr>isInitialized := True\<rparr>
      in initObjects w2 (map fst (objects w2)))"

section \<open>Vocabulary of the properties\<close>

text \<open>
  The shape the constructor gives the buffer: \<open>height\<close> rows of
  \<open>width * WorldObjectLayerCount\<close> slots. No operation changes it.
\<close>

definition shape_ok :: "World \<Rightarrow> bool" where
  "shape_ok w =
     (length (wmap w) = nat (height w) \<and>
      list_all (\<lambda>row. length row = nat (width w * int WorldObjectLayerCount)) (wmap w))"

definition inWorld :: "World \<Rightarrow> Coordinate \<Rightarrow> bool" where
  "inWorld w c = (0 \<le> fst c \<and> fst c < width w \<and> 0 \<le> snd c \<and> snd c < height w)"

text \<open>The cells of the rectangle at a position, in the order the loops visit them.\<close>

definition footprint :: "Coordinate \<Rightarrow> Size \<Rightarrow> Coordinate list" where
  "footprint p sz = region (fst p) (fst p + fst sz) (snd p) (snd p + snd sz)"

text \<open>
  The array slot that \<^verbatim>\<open>setMapCell\<close> and \<^verbatim>\<open>lookupByLayer\<close> address for a cell of a
  layer: row \<open>y\<close>, column \<open>x + layer\<close>.
\<close>

definition slotIndex :: "WorldObjectLayer \<Rightarrow> Coordinate \<Rightarrow> int \<times> int" where
  "slotIndex layer c = (snd c, fst c + int (layerIndex layer))"

definition slot :: "cell list list \<Rightarrow> WorldObjectLayer \<Rightarrow> Coordinate \<Rightarrow> cell" where
  "slot m layer c = m ! nat (snd c) ! (nat (fst c) + layerIndex layer)"

definition putSlot :: "cell list list \<Rightarrow> WorldObjectLayer \<Rightarrow> Coordinate \<Rightarrow> cell \<Rightarrow> cell list list" where
  "putSlot m layer c v = m[nat (snd c) := (m ! nat (snd c))[nat (fst c) + layerIndex layer := v]]"

definition putCells :: "cell list list \<Rightarrow> WorldObjectLayer \<Rightarrow> Coordinate list \<Rightarrow> cell \<Rightarrow> cell list list" where
  "putCells m layer cs v = fold (\<lambda>c m'. putSlot m' layer c v) cs m"

text \<open>
  What \<^verbatim>\<open>lookupByLayer\<close> reads on the other layers at a position, in the order of the
  layers, without the empty ones.
\<close>

definition otherOccupants :: "World \<Rightarrow> WorldObjectLayer \<Rightarrow> Coordinate \<Rightarrow> cell list" where
  "otherOccupants w layer c =
     concat (map (\<lambda>l. case lookupByLayer w l [c] of
                         Inl e \<Rightarrow> []
                       | Inr cs \<Rightarrow> filter (\<lambda>x. x \<noteq> Null) cs)
                 (filter (\<lambda>l. l \<noteq> layer) [UNDERGROUND, GROUND, OVERGROUND]))"

text \<open>Those of them that are not the identity \<open>i\<close> itself.\<close>

definition differentOccupants :: "World \<Rightarrow> WorldObjectLayer \<Rightarrow> Coordinate \<Rightarrow> WorldObjectID \<Rightarrow> cell list" where
  "differentOccupants w layer c i = filter (\<lambda>x. x \<noteq> Obj i) (otherOccupants w layer c)"

text \<open>The position \<^verbatim>\<open>placeObject\<close> uses: \<^verbatim>\<open>position || object.position\<close>.\<close>

definition resolved :: "WorldObject \<Rightarrow> Coordinate option \<Rightarrow> Coordinate" where
  "resolved ob position = (case position of Some p \<Rightarrow> p | None \<Rightarrow> obj_position ob)"

definition sentEvents :: "World \<Rightarrow> (WorldObjectID \<times> cell list) list" where
  "sentEvents w = (case gameSession w of None \<Rightarrow> [] | Some gs \<Rightarrow> intersectEvents (eventCenter gs))"

text \<open>
  The world after \<^verbatim>\<open>setMapCell\<close> has written an identity into an empty slot: the slot
  holds the identity, and an initialized world has told the session's event center of
  the occupants of the other layers when there are any.
\<close>

definition written :: "World \<Rightarrow> WorldObjectLayer \<Rightarrow> Coordinate \<Rightarrow> WorldObjectID \<Rightarrow> World" where
  "written w layer c i =
     (let w' = w\<lparr>wmap := putSlot (wmap w) layer c (Obj i)\<rparr>
      in if isInitialized w \<and> otherOccupants w layer c \<noteq> [] then notify w' i (otherOccupants w layer c)
         else w')"

text \<open>
  The cells a move visits: first the four clearing loops, then the four writing loops.
  Two rectangles of one size overlap or touch when neither coordinate moves by more
  than the size.
\<close>

definition clearList :: "Size \<Rightarrow> Coordinate \<Rightarrow> Coordinate \<Rightarrow> Coordinate list" where
  "clearList sz oldPosition newPosition =
     (case (sz, oldPosition, newPosition) of ((sw, sh), (oldX, oldY), (newX, newY)) \<Rightarrow>
        let overlapX = max oldX newX;
            overlapY = max oldY newY;
            overlapWidth = min (oldX + sw) (newX + sw) - overlapX;
            overlapHeight = min (oldY + sh) (newY + sh) - overlapY
        in region oldX overlapX oldY (oldY + sh) @
           region (overlapX + overlapWidth) (oldX + sw) oldY (oldY + sh) @
           region overlapX (overlapX + overlapWidth) oldY overlapY @
           region overlapX (overlapX + overlapWidth) (overlapY + overlapHeight) (oldY + sh))"

definition writeList :: "Size \<Rightarrow> Coordinate \<Rightarrow> Coordinate \<Rightarrow> Coordinate list" where
  "writeList sz oldPosition newPosition =
     (case (sz, oldPosition, newPosition) of ((sw, sh), (oldX, oldY), (newX, newY)) \<Rightarrow>
        let overlapX = max oldX newX;
            overlapY = max oldY newY;
            overlapWidth = min (oldX + sw) (newX + sw) - overlapX;
            overlapHeight = min (oldY + sh) (newY + sh) - overlapY
        in region newX overlapX newY (newY + sh) @
           region (overlapX + overlapWidth) (newX + sw) newY (newY + sh) @
           region overlapX (overlapX + overlapWidth) newY overlapY @
           region overlapX (overlapX + overlapWidth) (overlapY + overlapHeight) (newY + sh))"

definition touching :: "Size \<Rightarrow> Coordinate \<Rightarrow> Coordinate \<Rightarrow> bool" where
  "touching sz oldPosition newPosition =
     (\<bar>fst newPosition - fst oldPosition\<bar> \<le> fst sz \<and> \<bar>snd newPosition - snd oldPosition\<bar> \<le> snd sz)"

text \<open>Two worlds that differ at most in the buffer and in the session.\<close>

definition frame_eq :: "World \<Rightarrow> World \<Rightarrow> bool" where
  "frame_eq w w' =
     (world_id w' = world_id w \<and> width w' = width w \<and> height w' = height w \<and>
      objects w' = objects w \<and> isInitialized w' = isInitialized w)"

definition inv :: "World \<Rightarrow> World \<Rightarrow> bool" where
  "inv w0 w = (shape_ok w \<and> frame_eq w0 w)"

section \<open>Example worlds\<close>

text \<open>
  A world five cells wide and two high, as the constructor builds it
  (\<open>emptyWorld\<close>, and \<open>coldWorld\<close> with \<^verbatim>\<open>brick/A\<close> in the registry), after \<^verbatim>\<open>init\<close>
  without a session (\<open>readyWorld\<close>) and with one (\<open>sessionWorld\<close>), and with bricks
  installed and placed by the public operations.
\<close>

definition brickA :: WorldObject where
  "brickA = \<lparr>obj_id = ''brick/A'', obj_layer = GROUND, obj_position = (1, 0),
              obj_size = (1, 1), obj_isInitialized = False\<rparr>"

definition wideB :: WorldObject where
  "wideB = \<lparr>obj_id = ''brick/B'', obj_layer = GROUND, obj_position = (0, 0),
             obj_size = (2, 1), obj_isInitialized = False\<rparr>"

definition farBrick :: WorldObject where
  "farBrick = \<lparr>obj_id = ''brick/F'', obj_layer = GROUND, obj_position = (7, 0),
                obj_size = (1, 1), obj_isInitialized = False\<rparr>"

definition emptyWorld :: World where
  "emptyWorld = newWorld ''test'' 5 2 []"

definition coldWorld :: World where
  "coldWorld = newWorld ''test'' 5 2 [brickA]"

definition readyWorld :: World where
  "readyWorld = snd (init emptyWorld None)"

definition sessionWorld :: World where
  "sessionWorld = snd (init emptyWorld (Some \<lparr>eventCenter = \<lparr>intersectEvents = []\<rparr>\<rparr>))"

definition worldA :: World where
  "worldA = snd (installAndPlaceObject readyWorld brickA)"

definition worldAB :: World where
  "worldAB = snd (installObject worldA wideB)"

definition worldF :: World where
  "worldF = snd (installObject readyWorld farBrick)"

definition worldB :: World where
  "worldB = snd (installAndPlaceObject readyWorld wideB)"

definition sessionWorldA :: World where
  "sessionWorldA = snd (installAndPlaceObject sessionWorld brickA)"

section \<open>Array accesses inside the world\<close>

text \<open>
  In a buffer of the constructor's shape every slot that a cell inside the world
  addresses exists, so \<^verbatim>\<open>setMapCell\<close> has one of four outcomes: the out-of-bounds
  error, the overlap error, a cleared slot or a written slot.
\<close>

lemma layerIndex_le: "layerIndex l \<le> 2"
  by (cases l) auto

lemma row_in_range:
  assumes "shape_ok w" "inWorld w c"
  shows "nat (snd c) < length (wmap w)"
    and "j \<le> 2 \<Longrightarrow> nat (fst c) + j < length (wmap w ! nat (snd c))"
proof -
  show r: "nat (snd c) < length (wmap w)"
    using assms by (auto simp: shape_ok_def inWorld_def)
  assume j: "j \<le> 2"
  have "wmap w ! nat (snd c) \<in> set (wmap w)" using r by simp
  then have "length (wmap w ! nat (snd c)) = nat (width w * int WorldObjectLayerCount)"
    using assms(1) by (auto simp: shape_ok_def list_all_iff)
  then show "nat (fst c) + j < length (wmap w ! nat (snd c))"
    using assms(2) j by (auto simp: inWorld_def WorldObjectLayerCount_def)
qed

lemma readSlot_in:
  assumes "shape_ok w" "inWorld w c"
  shows "readSlot (wmap w) (snd c) (fst c + int (layerIndex l)) = Inr (slot (wmap w) l c)"
proof -
  have a: "nat (snd c) < length (wmap w)" using row_in_range(1)[OF assms] .
  have b: "nat (fst c) + layerIndex l < length (wmap w ! nat (snd c))"
    using row_in_range(2)[OF assms layerIndex_le] .
  have c0: "0 \<le> fst c" "0 \<le> snd c" using assms(2) by (auto simp: inWorld_def)
  have e: "nat (fst c + int (layerIndex l)) = nat (fst c) + layerIndex l"
    using c0 by (simp add: nat_add_distrib)
  have a': "snd c < int (length (wmap w))" using a c0 by linarith
  have b': "fst c + int (layerIndex l) < int (length (wmap w ! nat (snd c)))"
    using b c0 by linarith
  have c': "0 \<le> fst c + int (layerIndex l)" using c0 by linarith
  show ?thesis unfolding readSlot_def slot_def using a' b' c' c0(2) e by simp
qed

lemma lookup_slot:
  assumes "shape_ok w" "inWorld w c"
  shows "lookupByLayer w l [c] = Inr [slot (wmap w) l c]"
  using readSlot_in[OF assms, of l] by (cases c) (simp add: lookupByLayer_def)

lemma writeSlot_in:
  assumes "shape_ok w" "inWorld w c"
  shows "writeSlot (wmap w) (nat (snd c)) (nat (fst c) + layerIndex l) v = Inr (putSlot (wmap w) l c v)"
  using row_in_range(1)[OF assms] row_in_range(2)[OF assms layerIndex_le, of l]
  by (simp add: writeSlot_def writeRow_def putSlot_def)


lemma readSlot_nat:
  "r < length m \<Longrightarrow> k < length (m ! r) \<Longrightarrow> readSlot m (int r) (int k) = Inr (m ! r ! k)"
  by (simp add: readSlot_def)

lemma writeSlot_nat:
  "r < length m \<Longrightarrow> k < length (m ! r) \<Longrightarrow> writeSlot m r k v = Inr (m[r := (m ! r)[k := v]])"
  by (simp add: writeSlot_def writeRow_def)

lemma scanLayers_in:
  assumes r: "r < length m" and c: "c + 2 < length (m ! r)"
  shows "scanLayers m r c layer i [0..<WorldObjectLayerCount] [] =
         Inr (m[r := (m ! r)[c + layerIndex layer := Obj i]],
              filter (\<lambda>x. x \<noteq> Null)
                (map (\<lambda>j. m ! r ! (c + j)) (filter (\<lambda>j. j \<noteq> layerIndex layer) [0..<WorldObjectLayerCount])))"
proof -
  have u: "[0..<WorldObjectLayerCount] = [0, 1, 2]"
    by (simp add: WorldObjectLayerCount_def upt_rec)
  have k: "c + 0 < length (m ! r)" "c + 1 < length (m ! r)" "c + 2 < length (m ! r)"
    using c by simp_all
  show ?thesis
    unfolding u using r k
    by (cases layer) (simp_all add: readSlot_nat writeSlot_nat del: of_nat_add of_nat_Suc)
qed


lemma setMapCell_outside:
  "\<not> inWorld w c \<Longrightarrow> setMapCell w c layer v = (Inl (OutOfBounds (fst c) (snd c)), w)"
  by (cases c) (auto simp: setMapCell_def inWorld_def)

lemma setMapCell_clear:
  assumes "shape_ok w" "inWorld w c"
  shows "setMapCell w c layer None = (Inr (), w\<lparr>wmap := putSlot (wmap w) layer c Null\<rparr>)"
proof -
  obtain px py where c: "c = (px, py)" by (cases c)
  have g: "\<not> (px < 0 \<or> py < 0 \<or> px \<ge> width w \<or> py \<ge> height w)"
    using assms(2) c by (auto simp: inWorld_def)
  show ?thesis
    using writeSlot_in[OF assms, of layer Null] g unfolding c setMapCell_def
    by simp
qed

lemma setMapCell_occupied:
  assumes "shape_ok w" "inWorld w c" "slot (wmap w) layer c \<noteq> Null"
  shows "setMapCell w c layer (Some i) =
         (Inl (ErrorOverlappingObject i (slot (wmap w) layer c)), w)"
proof -
  obtain px py where c: "c = (px, py)" by (cases c)
  have g: "\<not> (px < 0 \<or> py < 0 \<or> px \<ge> width w \<or> py \<ge> height w)"
    using assms(2) c by (auto simp: inWorld_def)
  show ?thesis
    using readSlot_in[OF assms(1,2), of layer] g assms(3) unfolding c setMapCell_def
    by simp
qed

lemma otherOccupants_slots:
  assumes "shape_ok w" "inWorld w c"
  shows "filter (\<lambda>x. x \<noteq> Null)
           (map (\<lambda>j. wmap w ! nat (snd c) ! (nat (fst c) + j))
              (filter (\<lambda>j. j \<noteq> layerIndex layer) [0..<WorldObjectLayerCount]))
         = otherOccupants w layer c"
proof -
  have u: "[0..<WorldObjectLayerCount] = [0, 1, 2]"
    by (simp add: WorldObjectLayerCount_def upt_rec)
  have l: "\<And>l. lookupByLayer w l [c] = Inr [slot (wmap w) l c]"
    using lookup_slot[OF assms] .
  show ?thesis
    unfolding u otherOccupants_def by (cases layer) (simp_all add: l slot_def)
qed

lemma setMapCell_write:
  assumes "shape_ok w" "inWorld w c" "slot (wmap w) layer c = Null"
  shows "setMapCell w c layer (Some i) = (Inr (), written w layer c i)"
proof -
  obtain px py where c: "c = (px, py)" by (cases c)
  have g: "\<not> (px < 0 \<or> py < 0 \<or> px \<ge> width w \<or> py \<ge> height w)"
    using assms(2) c by (auto simp: inWorld_def)
  have rd: "readSlot (wmap w) py (px + int (layerIndex layer)) = Inr Null"
    using readSlot_in[OF assms(1,2), of layer] assms(3) c by simp
  have wr: "writeSlot (wmap w) (nat py) (nat px + layerIndex layer) (Obj i)
            = Inr (putSlot (wmap w) layer c (Obj i))"
    using writeSlot_in[OF assms(1,2), of layer "Obj i"] c by simp
  have sc: "scanLayers (wmap w) (nat py) (nat px) layer i [0..<WorldObjectLayerCount] []
            = Inr (putSlot (wmap w) layer c (Obj i), otherOccupants w layer c)"
    using scanLayers_in[OF row_in_range(1)[OF assms(1,2)], of "nat (fst c)" layer i]
      row_in_range(2)[OF assms(1,2), of 2] otherOccupants_slots[OF assms(1,2), of layer]
    by (simp add: c putSlot_def)
  show ?thesis
    unfolding c setMapCell_def written_def using g rd wr sc
    by (simp add: c Let_def)
qed


lemma frame_eq_refl: "frame_eq w w"
  by (simp add: frame_eq_def)

lemma frame_eq_trans: "frame_eq w w' \<Longrightarrow> frame_eq w' w'' \<Longrightarrow> frame_eq w w''"
  by (simp add: frame_eq_def)

lemma length_putSlot: "length (putSlot m l c v) = length m"
  by (simp add: putSlot_def)

lemma row_length_putSlot: "length (putSlot m l c v ! r) = length (m ! r)"
  by (cases "nat (snd c) < length m"; cases "r = nat (snd c)")
     (simp_all add: putSlot_def list_update_beyond)

lemma list_all_putSlot:
  "list_all (\<lambda>row. length row = n) m \<Longrightarrow> list_all (\<lambda>row. length row = n) (putSlot m l c v)"
  unfolding list_all_length length_putSlot row_length_putSlot .

lemma shape_ok_putSlot:
  "shape_ok w \<Longrightarrow> shape_ok (w\<lparr>wmap := putSlot (wmap w) l c v\<rparr>)"
  by (simp add: shape_ok_def length_putSlot list_all_putSlot)

lemma notify_frame:
  "wmap (notify w i xs) = wmap w" "frame_eq w (notify w i xs)"
  by (simp_all add: notify_def frame_eq_def split: option.splits)

lemma written_frame:
  "wmap (written w l c i) = putSlot (wmap w) l c (Obj i)" "frame_eq w (written w l c i)"
  by (simp_all add: written_def Let_def notify_def frame_eq_def split: option.splits)

lemma shape_ok_cong:
  "frame_eq w w' \<Longrightarrow> wmap w' = wmap w \<Longrightarrow> shape_ok w' = shape_ok w"
  by (simp add: shape_ok_def frame_eq_def)

lemma shape_ok_written:
  assumes "shape_ok w" shows "shape_ok (written w l c i)"
proof -
  have "shape_ok (w\<lparr>wmap := putSlot (wmap w) l c (Obj i)\<rparr>)"
    using assms by (rule shape_ok_putSlot)
  then show ?thesis
    using written_frame[of w l c i] by (simp add: shape_ok_def frame_eq_def)
qed

lemma inWorld_frame: "frame_eq w w' \<Longrightarrow> inWorld w' c = inWorld w c"
  by (simp add: inWorld_def frame_eq_def)

lemma setMapCell_cases:
  assumes "shape_ok w"
  shows "setMapCell w c layer v = (Inl (OutOfBounds (fst c) (snd c)), w) \<and> \<not> inWorld w c
       \<or> (\<exists>i. v = Some i \<and> inWorld w c \<and> slot (wmap w) layer c \<noteq> Null \<and>
             setMapCell w c layer v = (Inl (ErrorOverlappingObject i (slot (wmap w) layer c)), w))
       \<or> (\<exists>i. v = Some i \<and> inWorld w c \<and> slot (wmap w) layer c = Null \<and>
             setMapCell w c layer v = (Inr (), written w layer c i))
       \<or> (v = None \<and> inWorld w c \<and>
             setMapCell w c layer v = (Inr (), w\<lparr>wmap := putSlot (wmap w) layer c Null\<rparr>))"
proof (cases "inWorld w c")
  case False
  then show ?thesis using setMapCell_outside[of w c layer v] by simp
next
  case inw: True
  show ?thesis
  proof (cases v)
    case None
    then show ?thesis using setMapCell_clear[OF assms inw, of layer] inw by simp
  next
    case (Some i)
    show ?thesis
    proof (cases "slot (wmap w) layer c = Null")
      case True
      then show ?thesis using setMapCell_write[OF assms inw True, of i] inw Some by simp
    next
      case False
      then show ?thesis using setMapCell_occupied[OF assms inw False, of i] inw Some by simp
    qed
  qed
qed

lemma setMapCell_inv:
  assumes "shape_ok w"
  shows "shape_ok (snd (setMapCell w c layer v))" "frame_eq w (snd (setMapCell w c layer v))"
proof -
  show "shape_ok (snd (setMapCell w c layer v))"
    using setMapCell_cases[OF assms, of c layer v] assms shape_ok_written[OF assms, of layer c]
      shape_ok_putSlot[OF assms, of layer c Null]
    by (elim disjE exE conjE) simp_all
  show "frame_eq w (snd (setMapCell w c layer v))"
    using setMapCell_cases[OF assms, of c layer v] written_frame(2)[of w layer c]
    by (elim disjE exE conjE) (simp_all add: frame_eq_def)
qed

lemma setCells_inv:
  "shape_ok w \<Longrightarrow> shape_ok (snd (setCells w cs layer v)) \<and> frame_eq w (snd (setCells w cs layer v))"
proof (induction cs arbitrary: w)
  case Nil
  then show ?case by (simp add: frame_eq_refl)
next
  case (Cons c cs)
  obtain r w1 where s: "setMapCell w c layer v = (r, w1)" by (cases "setMapCell w c layer v")
  have i1: "shape_ok w1" "frame_eq w w1"
    using setMapCell_inv[OF Cons.prems, of c layer v] s by simp_all
  show ?case
  proof (cases r)
    case (Inl e)
    then show ?thesis using s i1 by simp
  next
    case (Inr u)
    then show ?thesis
      using s i1 Cons.IH[OF i1(1)] frame_eq_trans[OF i1(2)] by simp
  qed
qed


lemma set_region:
  "(cx, cy) \<in> set (region x0 x1 y0 y1) \<longleftrightarrow> x0 \<le> cx \<and> cx < x1 \<and> y0 \<le> cy \<and> cy < y1"
  by (auto simp: region_def)

lemma distinct_region: "distinct (region x0 x1 y0 y1)"
  by (simp add: region_def distinct_product)

lemma set_footprint:
  "c \<in> set (footprint p sz) \<longleftrightarrow>
     fst p \<le> fst c \<and> fst c < fst p + fst sz \<and> snd p \<le> snd c \<and> snd c < snd p + snd sz"
  by (cases c) (simp add: footprint_def set_region)

lemma footprint_inWorld:
  assumes "\<not> outOfBounds w sz p" "c \<in> set (footprint p sz)"
  shows "inWorld w c"
  using assms by (cases p; cases sz) (auto simp: outOfBounds_def set_footprint inWorld_def)

lemma setCells_append:
  "setCells w (xs @ ys) layer v = andThen (setCells w xs layer v) (\<lambda>w'. setCells w' ys layer v)"
  by (induction xs arbitrary: w) (auto simp: andThen_def split: prod.splits sum.splits)

lemma putCells_Cons: "putCells m l (c # cs) v = putCells (putSlot m l c v) l cs v"
  by (simp add: putCells_def)

lemma putCells_Nil: "putCells m l [] v = m"
  by (simp add: putCells_def)

lemma setCells_clear:
  "shape_ok w \<Longrightarrow> \<forall>c\<in>set cs. inWorld w c \<Longrightarrow>
     setCells w cs layer None = (Inr (), w\<lparr>wmap := putCells (wmap w) layer cs Null\<rparr>)"
proof (induction cs arbitrary: w)
  case Nil
  then show ?case by (simp add: putCells_Nil)
next
  case (Cons c cs)
  let ?w1 = "w\<lparr>wmap := putSlot (wmap w) layer c Null\<rparr>"
  have st: "setMapCell w c layer None = (Inr (), ?w1)"
    using setMapCell_clear[OF Cons.prems(1)] Cons.prems(2) by simp
  have sh: "shape_ok ?w1" using shape_ok_putSlot[OF Cons.prems(1)] .
  have inw: "\<forall>c\<in>set cs. inWorld ?w1 c" using Cons.prems(2) by (simp add: inWorld_def)
  show ?case using st Cons.IH[OF sh inw] by (simp add: putCells_Cons)
qed

lemma slot_putSlot_same:
  assumes "shape_ok w" "inWorld w c"
  shows "slot (putSlot (wmap w) l c v) l c = v"
  using row_in_range(1)[OF assms] row_in_range(2)[OF assms layerIndex_le, of l]
  by (simp add: slot_def putSlot_def)

lemma slot_putSlot_other:
  assumes "0 \<le> fst c" "0 \<le> snd c" "0 \<le> fst c'" "0 \<le> snd c'" "c' \<noteq> c"
  shows "slot (putSlot m l c v) l c' = slot m l c'"
proof (cases "snd c' = snd c")
  case True
  then have "fst c' \<noteq> fst c" using assms(5) by (auto simp: prod_eq_iff)
  then have "nat (fst c') + layerIndex l \<noteq> nat (fst c) + layerIndex l"
    using assms by auto
  then show ?thesis
    by (cases "nat (snd c) < length m") (simp_all add: slot_def putSlot_def True list_update_beyond)
next
  case False
  then have "nat (snd c') \<noteq> nat (snd c)" using assms by auto
  then show ?thesis by (simp add: slot_def putSlot_def)
qed

lemma inWorld_nonneg: "inWorld w c \<Longrightarrow> 0 \<le> fst c \<and> 0 \<le> snd c"
  by (simp add: inWorld_def)

lemma setCells_write:
  "shape_ok w \<Longrightarrow> \<forall>c\<in>set cs. inWorld w c \<Longrightarrow> distinct cs \<Longrightarrow>
   \<forall>c\<in>set cs. slot (wmap w) layer c = Null \<Longrightarrow>
   \<exists>w'. setCells w cs layer (Some i) = (Inr (), w') \<and>
        wmap w' = putCells (wmap w) layer cs (Obj i) \<and> frame_eq w w' \<and> shape_ok w'"
proof (induction cs arbitrary: w)
  case Nil
  then show ?case by (simp add: putCells_Nil frame_eq_refl)
next
  case (Cons c cs)
  let ?w1 = "written w layer c i"
  have inw: "inWorld w c" using Cons.prems(2) by simp
  have st: "setMapCell w c layer (Some i) = (Inr (), ?w1)"
    using setMapCell_write[OF Cons.prems(1) inw] Cons.prems(4) by simp
  have sh: "shape_ok ?w1" using shape_ok_written[OF Cons.prems(1)] .
  have fr: "frame_eq w ?w1" using written_frame(2) .
  have inw1: "\<forall>c\<in>set cs. inWorld ?w1 c"
    using Cons.prems(2) inWorld_frame[OF fr] by simp
  have d: "distinct cs" using Cons.prems(3) by simp
  have nl: "\<forall>c'\<in>set cs. slot (wmap ?w1) layer c' = Null"
  proof
    fix c' assume c': "c' \<in> set cs"
    then have ne: "c' \<noteq> c" using Cons.prems(3) by auto
    have "slot (putSlot (wmap w) layer c (Obj i)) layer c' = slot (wmap w) layer c'"
      using slot_putSlot_other[OF _ _ _ _ ne] inWorld_nonneg[OF inw]
        inWorld_nonneg[of w c'] Cons.prems(2) c' by simp
    then show "slot (wmap ?w1) layer c' = Null"
      using Cons.prems(4) c' by (simp add: written_frame(1))
  qed
  obtain w' where w': "setCells ?w1 cs layer (Some i) = (Inr (), w')"
    "wmap w' = putCells (wmap ?w1) layer cs (Obj i)" "frame_eq ?w1 w'" "shape_ok w'"
    using Cons.IH[OF sh inw1 d nl] by blast
  show ?case
    using st w' frame_eq_trans[OF fr w'(3)]
    by (simp add: putCells_Cons written_frame(1))
qed


lemma slot_putCells_notin:
  "c \<notin> set cs \<Longrightarrow> 0 \<le> fst c \<Longrightarrow> 0 \<le> snd c \<Longrightarrow> \<forall>q\<in>set cs. 0 \<le> fst q \<and> 0 \<le> snd q \<Longrightarrow>
   slot (putCells m l cs v) l c = slot m l c"
proof (induction cs arbitrary: m)
  case Nil
  then show ?case by (simp add: putCells_Nil)
next
  case (Cons a cs)
  have "slot (putCells (putSlot m l a v) l cs v) l c = slot (putSlot m l a v) l c"
    using Cons by simp
  also have "\<dots> = slot m l c"
    using slot_putSlot_other[where c=a and c'=c and m=m and l=l and v=v] Cons.prems by auto
  finally show ?case by (simp add: putCells_Cons)
qed

lemma shape_ok_putCells:
  "shape_ok w \<Longrightarrow> shape_ok (w\<lparr>wmap := putCells (wmap w) l cs v\<rparr>)"
proof (induction cs arbitrary: w)
  case Nil
  then show ?case by (simp add: putCells_Nil)
next
  case (Cons a cs)
  show ?case
    using Cons.IH[OF shape_ok_putSlot[OF Cons.prems, of l a v]] by (simp add: putCells_Cons)
qed

lemma slot_putCells_in:
  "shape_ok w \<Longrightarrow> \<forall>q\<in>set cs. inWorld w q \<Longrightarrow> c \<in> set cs \<Longrightarrow>
   slot (putCells (wmap w) l cs v) l c = v"
proof (induction cs arbitrary: w)
  case Nil
  then show ?case by simp
next
  case (Cons a cs)
  let ?w1 = "w\<lparr>wmap := putSlot (wmap w) l a v\<rparr>"
  have sh: "shape_ok ?w1" using shape_ok_putSlot[OF Cons.prems(1)] .
  have inw: "\<forall>q\<in>set cs. inWorld ?w1 q" using Cons.prems(2) by (simp add: inWorld_def)
  show ?case
  proof (cases "c \<in> set cs")
    case True
    then show ?thesis using Cons.IH[OF sh inw True] by (simp add: putCells_Cons)
  next
    case False
    then have ca: "c = a" using Cons.prems(3) by simp
    have nn: "0 \<le> fst a \<and> 0 \<le> snd a" "\<forall>q\<in>set cs. 0 \<le> fst q \<and> 0 \<le> snd q"
      using Cons.prems(2) by (simp_all add: inWorld_def)
    have "slot (putCells (putSlot (wmap w) l a v) l cs v) l a = slot (putSlot (wmap w) l a v) l a"
      using slot_putCells_notin[where c=a and cs=cs and l=l and m="putSlot (wmap w) l a v" and v=v]
        False ca nn by simp
    then show ?thesis
      using slot_putSlot_same[OF Cons.prems(1), of a l v] Cons.prems(2) ca
      by (simp add: putCells_Cons)
  qed
qed

lemma readSlot_putSlot_other:
  assumes "0 \<le> fst c" "0 \<le> snd c" "(r, k) \<noteq> slotIndex l c"
  shows "readSlot (putSlot m l c v) r k = readSlot m r k"
proof (cases "0 \<le> r \<and> r < int (length m) \<and> 0 \<le> k")
  case False
  then show ?thesis by (auto simp: readSlot_def length_putSlot row_length_putSlot)
next
  case True
  show ?thesis
  proof (cases "nat r = nat (snd c)")
    case False
    then show ?thesis by (simp add: readSlot_def putSlot_def)
  next
    case r: True
    then have "r = snd c" using True assms(2) by linarith
    then have "k \<noteq> fst c + int (layerIndex l)" using assms(3) by (simp add: slotIndex_def)
    then have "nat k \<noteq> nat (fst c) + layerIndex l" using True assms(1) by linarith
    moreover have "nat (snd c) < length m" using True r by linarith
    ultimately show ?thesis using True r by (simp add: readSlot_def putSlot_def)
  qed
qed

lemma readSlot_putCells_other:
  "\<forall>q\<in>set cs. 0 \<le> fst q \<and> 0 \<le> snd q \<Longrightarrow> (r, k) \<notin> slotIndex l ` set cs \<Longrightarrow>
   readSlot (putCells m l cs v) r k = readSlot m r k"
proof (induction cs arbitrary: m)
  case Nil
  then show ?case by (simp add: putCells_Nil)
next
  case (Cons a cs)
  have "readSlot (putCells (putSlot m l a v) l cs v) r k = readSlot (putSlot m l a v) r k"
    using Cons by simp
  also have "\<dots> = readSlot m r k"
    using readSlot_putSlot_other[where c=a and r=r and k=k and l=l and m=m and v=v] Cons.prems by simp
  finally show ?case by (simp add: putCells_Cons)
qed

lemma setCells_conflict:
  assumes sh: "shape_ok w"
    and inw: "\<forall>q\<in>set pre. inWorld w q" "inWorld w c"
    and d: "distinct pre"
    and nl: "\<forall>q\<in>set pre. slot (wmap w) layer q = Null"
    and oc: "slot (wmap w) layer c \<noteq> Null"
  shows "\<exists>w'. setCells w (pre @ c # post) layer (Some i) =
                 (Inl (ErrorOverlappingObject i (slot (wmap w) layer c)), w') \<and>
              wmap w' = putCells (wmap w) layer pre (Obj i) \<and> frame_eq w w' \<and> shape_ok w'"
proof -
  obtain w' where w': "setCells w pre layer (Some i) = (Inr (), w')"
    "wmap w' = putCells (wmap w) layer pre (Obj i)" "frame_eq w w'" "shape_ok w'"
    using setCells_write[OF sh inw(1) d nl] by blast
  have cn: "c \<notin> set pre" using nl oc by auto
  have nn: "0 \<le> fst c" "0 \<le> snd c" "\<forall>q\<in>set pre. 0 \<le> fst q \<and> 0 \<le> snd q"
    using inw by (simp_all add: inWorld_def)
  have sl: "slot (wmap w') layer c = slot (wmap w) layer c"
    using slot_putCells_notin[OF cn nn] w'(2) by simp
  have inw': "inWorld w' c" using inw(2) inWorld_frame[OF w'(3)] by simp
  have "setMapCell w' c layer (Some i) = (Inl (ErrorOverlappingObject i (slot (wmap w) layer c)), w')"
    using setMapCell_occupied[OF w'(4) inw', of layer i] oc sl by simp
  then have "setCells w (pre @ c # post) layer (Some i) =
      (Inl (ErrorOverlappingObject i (slot (wmap w) layer c)), w')"
    using w'(1) by (simp add: setCells_append andThen_def)
  then show ?thesis using w' by blast
qed

lemma andThen_inv:
  assumes "inv w0 (snd r)" "\<And>w. inv w0 w \<Longrightarrow> inv w0 (snd (f w))"
  shows "inv w0 (snd (andThen r f))"
  using assms by (cases r) (auto simp: andThen_def split: sum.splits)

lemma setCells_inv':
  "inv w0 w \<Longrightarrow> inv w0 (snd (setCells w cs layer v))"
  using setCells_inv[of w cs layer v] frame_eq_trans[of w0 w] by (auto simp: inv_def)

lemma returning_snd: "snd (returning b r) = snd r"
  by (cases r) (auto simp: returning_def split: sum.splits)

lemma moveCells_inv:
  assumes "shape_ok w"
  shows "inv w (snd (moveCells w i layer sz old new))"
proof -
  have w: "inv w w" using assms by (simp add: inv_def frame_eq_refl)
  show ?thesis
    unfolding moveCells_def Let_def
    by (cases sz; cases old; cases new)
       (simp, intro andThen_inv setCells_inv' w, assumption+)
qed

lemma restructureMap_inv:
  assumes "shape_ok w"
  shows "inv w (snd (restructureMap w i layer sz old new))"
proof -
  have w: "inv w w" using assms by (simp add: inv_def frame_eq_refl)
  show ?thesis
    using w setCells_inv'[OF w] moveCells_inv[OF assms]
    by (auto simp: restructureMap_def returning_snd split: option.splits)
qed

section \<open>What an operation leaves alone\<close>

text \<open>
  \<^verbatim>\<open>setMapCell\<close>, and with it every loop of \<^verbatim>\<open>restructureMap\<close>, changes the buffer and
  the session's events only, whatever the shape of the buffer and the outcome.
\<close>

lemma setMapCell_frame: "frame_eq w (snd (setMapCell w c layer v))"
  by (cases c)
     (auto simp: setMapCell_def frame_eq_def notify_def split: option.splits sum.splits prod.splits)

lemma setCells_frame: "frame_eq w (snd (setCells w cs layer v))"
proof (induction cs arbitrary: w)
  case Nil
  then show ?case by (simp add: frame_eq_refl)
next
  case (Cons c cs)
  obtain r w1 where s: "setMapCell w c layer v = (r, w1)" by (cases "setMapCell w c layer v")
  have f1: "frame_eq w w1" using setMapCell_frame[of w c layer v] s by simp
  show ?case
    using s f1 frame_eq_trans[OF f1 Cons.IH[of w1]] by (cases r) simp_all
qed

lemma andThen_frame:
  assumes "frame_eq w0 (snd r)" "\<And>w. frame_eq w0 w \<Longrightarrow> frame_eq w0 (snd (f w))"
  shows "frame_eq w0 (snd (andThen r f))"
  using assms by (cases r) (auto simp: andThen_def split: sum.splits)

lemma setCells_frame': "frame_eq w0 w \<Longrightarrow> frame_eq w0 (snd (setCells w cs layer v))"
  using frame_eq_trans[OF _ setCells_frame] .

lemma moveCells_frame: "frame_eq w (snd (moveCells w i layer sz old new))"
  unfolding moveCells_def Let_def
  by (cases sz; cases old; cases new)
     (simp, intro andThen_frame setCells_frame' frame_eq_refl, assumption+)

lemma restructureMap_frame: "frame_eq w (snd (restructureMap w i layer sz old new))"
  using frame_eq_refl[of w] setCells_frame[of w] moveCells_frame[of w]
  by (auto simp: restructureMap_def returning_snd split: option.splits)

section \<open>Placing and displacing, step by step\<close>

text \<open>
  \<^verbatim>\<open>displaceObject\<close> on a rectangle inside the world, and the two ways a
  \<^verbatim>\<open>placeObject\<close> inside the world ends: every target cell was empty, or the loops
  stop at the first cell that was not.
\<close>

lemma restructureMap_remove:
  "restructureMap w i layer sz (Some old) None =
     returning True (setCells w (footprint old sz) layer None)"
  by (cases old) (simp add: restructureMap_def footprint_def)

lemma restructureMap_add:
  "\<not> outOfBounds w sz new \<Longrightarrow>
   restructureMap w i layer sz None (Some new) =
     returning True (setCells w (footprint new sz) layer (Some i))"
  by (cases new) (simp add: restructureMap_def footprint_def)

lemma returning_not_False: "fst (returning True r) \<noteq> Inr False"
  by (cases r) (auto simp: returning_def split: sum.splits)

lemma displaceObject_char:
  assumes "isInitialized w" "shape_ok w" "map_of (objects w) i = Some ob"
    "\<forall>c\<in>set (footprint (obj_position ob) (obj_size ob)). inWorld w c"
  shows "displaceObject w i =
     (Inr True, w\<lparr>wmap := putCells (wmap w) (obj_layer ob) (footprint (obj_position ob) (obj_size ob)) Null\<rparr>)"
  using assms(1,3) setCells_clear[OF assms(2,4), of "obj_layer ob"]
  by (simp add: displaceObject_def restructureMap_remove returning_def)

lemma moveObject_success:
  assumes "moveObject w i p = (Inr (Some q), w')" "map_of (objects w) i = Some ob"
  shows "isInitialized w" "q = p"
    "w' = snd (restructureMap w (obj_id ob) (obj_layer ob) (obj_size ob) (Some (obj_position ob)) (Some p))"
  using assms
  by (auto simp: moveObject_def split: if_splits prod.splits sum.splits)

lemma sentEvents_written:
  "sentEvents (written w layer c i) =
     sentEvents w @ (if isInitialized w \<and> gameSession w \<noteq> None \<and> otherOccupants w layer c \<noteq> []
                     then [(i, otherOccupants w layer c)] else [])"
  "gameSession (written w layer c i) = None \<longleftrightarrow> gameSession w = None"
  by (auto simp: written_def Let_def notify_def objectIntersect_def sentEvents_def
      split: option.splits)

lemma placeObject_unfold:
  assumes "isInitialized w" "map_of (objects w) i = Some ob"
    "\<not> outOfBounds w (obj_size ob) (resolved ob position)"
  shows "placeObject w i position =
     (case setCells (w\<lparr>objects := AList.update (obj_id ob) ob (objects w)\<rparr>)
             (footprint (resolved ob position) (obj_size ob)) (obj_layer ob) (Some (obj_id ob)) of
        (Inl e, w2) \<Rightarrow> (Inl e, w2)
      | (Inr u, w2) \<Rightarrow>
          (case placed ob (resolved ob position) of
             Inl e \<Rightarrow> (Inl e, w2)
           | Inr ob' \<Rightarrow> (Inr (Some (resolved ob position)),
                          w2\<lparr>objects := AList.update (obj_id ob) ob' (objects w2)\<rparr>)))"
proof -
  let ?w1 = "w\<lparr>objects := AList.update (obj_id ob) ob (objects w)\<rparr>"
  have nb: "\<not> outOfBounds ?w1 (obj_size ob) (resolved ob position)"
    using assms(3) by (simp add: outOfBounds_def)
  obtain res w2 where sc: "setCells ?w1 (footprint (resolved ob position) (obj_size ob))
      (obj_layer ob) (Some (obj_id ob)) = (res, w2)"
    by (cases "setCells ?w1 (footprint (resolved ob position) (obj_size ob))
      (obj_layer ob) (Some (obj_id ob))")
  show ?thesis
    using assms(1,2) nb sc
    by (cases position; cases res)
       (simp_all add: placeObject_def Let_def resolved_def restructureMap_add returning_def
          split: sum.splits)
qed

lemma placed_not_overlap: "placed ob p \<noteq> Inl (ErrorOverlappingObject a x)"
  by (simp add: placed_def)

lemma placeObject_free:
  assumes "isInitialized w" "shape_ok w" "map_of (objects w) i = Some ob"
    "\<not> outOfBounds w (obj_size ob) (resolved ob position)"
    "\<forall>c\<in>set (footprint (resolved ob position) (obj_size ob)). slot (wmap w) (obj_layer ob) c = Null"
  shows "fst (placeObject w i position) \<noteq> Inl (ErrorOverlappingObject a x)"
proof -
  let ?w1 = "w\<lparr>objects := AList.update (obj_id ob) ob (objects w)\<rparr>"
  let ?fp = "footprint (resolved ob position) (obj_size ob)"
  have sh: "shape_ok ?w1" using assms(2) by (simp add: shape_ok_def)
  have inw: "\<forall>c\<in>set ?fp. inWorld ?w1 c"
    using footprint_inWorld[OF assms(4)] by (simp add: inWorld_def)
  have d: "distinct ?fp" by (simp add: footprint_def distinct_region)
  have nl: "\<forall>c\<in>set ?fp. slot (wmap ?w1) (obj_layer ob) c = Null" using assms(5) by simp
  obtain w' where w': "setCells ?w1 ?fp (obj_layer ob) (Some (obj_id ob)) = (Inr (), w')"
    using setCells_write[OF sh inw d nl] by blast
  show ?thesis
    using placed_not_overlap[of ob "resolved ob position" a x]
    unfolding placeObject_unfold[OF assms(1,3,4)] w'
    by (cases "placed ob (resolved ob position)") simp_all
qed

lemma placeObject_blocked:
  assumes "isInitialized w" "shape_ok w" "map_of (objects w) i = Some ob"
    "\<not> outOfBounds w (obj_size ob) (resolved ob position)"
    "footprint (resolved ob position) (obj_size ob) = pre @ c # post"
    "\<forall>q\<in>set pre. slot (wmap w) (obj_layer ob) q = Null"
    "slot (wmap w) (obj_layer ob) c \<noteq> Null"
  shows "\<exists>w'. placeObject w i position =
            (Inl (ErrorOverlappingObject (obj_id ob) (slot (wmap w) (obj_layer ob) c)), w') \<and>
          wmap w' = putCells (wmap w) (obj_layer ob) pre (Obj (obj_id ob)) \<and>
          width w' = width w \<and> height w' = height w \<and> shape_ok w'"
proof -
  let ?w1 = "w\<lparr>objects := AList.update (obj_id ob) ob (objects w)\<rparr>"
  let ?fp = "footprint (resolved ob position) (obj_size ob)"
  have sh: "shape_ok ?w1" using assms(2) by (simp add: shape_ok_def)
  have inw0: "\<forall>q\<in>set ?fp. inWorld ?w1 q"
    using footprint_inWorld[OF assms(4)] by (simp add: inWorld_def)
  have inw: "\<forall>q\<in>set pre. inWorld ?w1 q" "inWorld ?w1 c"
    using inw0 unfolding assms(5) by simp_all
  have "distinct ?fp" by (simp add: footprint_def distinct_region)
  then have d: "distinct pre" unfolding assms(5) by simp
  have nl: "\<forall>q\<in>set pre. slot (wmap ?w1) (obj_layer ob) q = Null" using assms(6) by simp
  have oc: "slot (wmap ?w1) (obj_layer ob) c \<noteq> Null" using assms(7) by simp
  obtain w' where w': "setCells ?w1 (pre @ c # post) (obj_layer ob) (Some (obj_id ob)) =
        (Inl (ErrorOverlappingObject (obj_id ob) (slot (wmap ?w1) (obj_layer ob) c)), w')"
      "wmap w' = putCells (wmap ?w1) (obj_layer ob) pre (Obj (obj_id ob))" "frame_eq ?w1 w'" "shape_ok w'"
    using setCells_conflict[OF sh inw d nl oc, of post "obj_id ob"] by blast
  have "placeObject w i position =
      (Inl (ErrorOverlappingObject (obj_id ob) (slot (wmap w) (obj_layer ob) c)), w')"
    unfolding placeObject_unfold[OF assms(1,3,4)] assms(5) w'(1) by simp
  then show ?thesis using w'(2,3,4) by (auto simp: frame_eq_def)
qed

section \<open>The shape of the buffer is kept\<close>

text \<open>
  The constructor builds a buffer of the shape \<open>shape_ok\<close> and every public operation
  keeps it, so the shape is no restriction on a world the operations can reach.
\<close>

lemma shape_ok_newWorld: "shape_ok (newWorld n w h objs)"
  by (simp add: shape_ok_def newWorld_def list_all_length)

lemma shape_ok_objects: "shape_ok (w\<lparr>objects := al\<rparr>) = shape_ok w"
  by (simp add: shape_ok_def)

lemma shape_ok_restructureMap:
  "shape_ok w \<Longrightarrow> shape_ok (snd (restructureMap w i layer sz old new))"
  using restructureMap_inv[of w i layer sz old new] by (simp add: inv_def)

lemma shape_ok_installObject: "shape_ok w \<Longrightarrow> shape_ok (snd (installObject w ob))"
  by (simp add: installObject_def initObject_def shape_ok_def)

lemma shape_ok_uninstallObject: "shape_ok w \<Longrightarrow> shape_ok (snd (uninstallObject w i))"
  by (simp add: uninstallObject_def shape_ok_def split: option.splits)

lemma shape_ok_placeObject:
  assumes "shape_ok w" shows "shape_ok (snd (placeObject w i position))"
proof (cases "isInitialized w")
  case False
  then show ?thesis using assms by (simp add: placeObject_def)
next
  case ini: True
  show ?thesis
  proof (cases "map_of (objects w) i")
    case None
    then show ?thesis using assms ini by (simp add: placeObject_def)
  next
    case (Some ob)
    let ?w1 = "w\<lparr>objects := AList.update (obj_id ob) ob (objects w)\<rparr>"
    let ?p = "resolved ob position"
    obtain r w2 where rm:
      "restructureMap ?w1 (obj_id ob) (obj_layer ob) (obj_size ob) None (Some ?p) = (r, w2)"
      by (cases "restructureMap ?w1 (obj_id ob) (obj_layer ob) (obj_size ob) None (Some ?p)")
    have "shape_ok w2"
      using shape_ok_restructureMap[of ?w1 "obj_id ob" "obj_layer ob" "obj_size ob" None "Some ?p"]
        assms rm by (simp add: shape_ok_objects)
    then show ?thesis
      using ini Some rm
      by (cases r; cases "placed ob ?p")
         (simp_all add: placeObject_def Let_def resolved_def shape_ok_objects)
  qed
qed

lemma shape_ok_displaceObject:
  assumes "shape_ok w" shows "shape_ok (snd (displaceObject w i))"
proof (cases "isInitialized w \<and> map_of (objects w) i \<noteq> None")
  case False
  then show ?thesis using assms by (auto simp: displaceObject_def)
next
  case True
  then obtain ob where ob: "map_of (objects w) i = Some ob" by blast
  obtain r w2 where rm:
    "restructureMap w (obj_id ob) (obj_layer ob) (obj_size ob) (Some (obj_position ob)) None = (r, w2)"
    by (cases "restructureMap w (obj_id ob) (obj_layer ob) (obj_size ob) (Some (obj_position ob)) None")
  have "shape_ok w2"
    using shape_ok_restructureMap[OF assms, of "obj_id ob" "obj_layer ob" "obj_size ob"
        "Some (obj_position ob)" None] rm by simp
  then show ?thesis
    using True ob rm by (cases r) (simp_all add: displaceObject_def shape_ok_objects)
qed

lemma shape_ok_moveObject:
  assumes "shape_ok w" shows "shape_ok (snd (moveObject w i p))"
proof (cases "isInitialized w \<and> map_of (objects w) i \<noteq> None")
  case False
  then show ?thesis using assms by (auto simp: moveObject_def)
next
  case True
  then obtain ob where ob: "map_of (objects w) i = Some ob" by blast
  obtain r w2 where rm:
    "restructureMap w (obj_id ob) (obj_layer ob) (obj_size ob) (Some (obj_position ob)) (Some p) = (r, w2)"
    by (cases "restructureMap w (obj_id ob) (obj_layer ob) (obj_size ob) (Some (obj_position ob)) (Some p)")
  have "shape_ok w2"
    using shape_ok_restructureMap[OF assms, of "obj_id ob" "obj_layer ob" "obj_size ob"
        "Some (obj_position ob)" "Some p"] rm by simp
  then show ?thesis
    using True ob rm by (cases r) (simp_all add: moveObject_def)
qed

lemma shape_ok_initObjects: "shape_ok w \<Longrightarrow> shape_ok (snd (initObjects w ks))"
proof (induction ks arbitrary: w)
  case Nil
  then show ?case by simp
next
  case (Cons k ks)
  show ?case
  proof (cases "map_of (objects w) k")
    case None
    then show ?thesis using Cons by simp
  next
    case (Some ob)
    obtain r w1 where p: "placeObject (initObject w ob) (obj_id ob) None = (r, w1)"
      by (cases "placeObject (initObject w ob) (obj_id ob) None")
    have "shape_ok (initObject w ob)" using Cons.prems by (simp add: initObject_def shape_ok_objects)
    then have "shape_ok w1" using shape_ok_placeObject[of "initObject w ob" "obj_id ob" None] p by simp
    then show ?thesis using Some p Cons.IH[of w1] by (cases r) simp_all
  qed
qed

lemma shape_ok_init:
  assumes "shape_ok w" shows "shape_ok (snd (init w session))"
proof -
  let ?w1 = "case session of Some gs \<Rightarrow> w\<lparr>gameSession := Some gs\<rparr> | None \<Rightarrow> w"
  have "shape_ok (?w1\<lparr>isInitialized := True\<rparr>)"
    using assms by (cases session) (simp_all add: shape_ok_def)
  then show ?thesis
    unfolding init_def Let_def by (rule shape_ok_initObjects)
qed

section \<open>A move between rectangles that overlap or touch\<close>

text \<open>
  The eight loops of a move are one clearing pass and one writing pass. When the old
  and the new rectangle overlap or touch, the first visits the old cells outside the new
  rectangle and the second the new cells outside the old one, each once: the cells of
  the intersection are never visited and read as before, the others of the old
  rectangle read empty, the others of the new one hold the identity, and no other slot
  of the buffer changes.
\<close>

lemma andThen_assoc: "andThen (andThen r f) g = andThen r (\<lambda>w. andThen (f w) g)"
  by (cases r) (auto simp: andThen_def split: sum.splits)

lemma moveCells_two_passes:
  "moveCells w i layer sz old new =
     andThen (setCells w (clearList sz old new) layer None)
       (\<lambda>w'. setCells w' (writeList sz old new) layer (Some i))"
  by (cases sz; cases old; cases new)
     (simp add: moveCells_def clearList_def writeList_def Let_def setCells_append andThen_assoc)

lemma set_clearList:
  assumes "touching sz old new"
  shows "set (clearList sz old new) = set (footprint old sz) - set (footprint new sz)"
proof -
  obtain sw sh ox oy nx ny where d: "sz = (sw, sh)" "old = (ox, oy)" "new = (nx, ny)"
    by (cases sz; cases old; cases new) auto
  have t: "\<bar>nx - ox\<bar> \<le> sw" "\<bar>ny - oy\<bar> \<le> sh" using assms d by (simp_all add: touching_def)
  show ?thesis
  proof (rule set_eqI)
    fix c :: Coordinate
    obtain cx cy where c: "c = (cx, cy)" by (cases c)
    show "c \<in> set (clearList sz old new) \<longleftrightarrow> c \<in> set (footprint old sz) - set (footprint new sz)"
      unfolding c d clearList_def footprint_def using t
      by (simp add: set_region Let_def) (auto simp: max_def min_def)
  qed
qed

lemma set_writeList:
  assumes "touching sz old new"
  shows "set (writeList sz old new) = set (footprint new sz) - set (footprint old sz)"
proof -
  obtain sw sh ox oy nx ny where d: "sz = (sw, sh)" "old = (ox, oy)" "new = (nx, ny)"
    by (cases sz; cases old; cases new) auto
  have t: "\<bar>nx - ox\<bar> \<le> sw" "\<bar>ny - oy\<bar> \<le> sh" using assms d by (simp_all add: touching_def)
  show ?thesis
  proof (rule set_eqI)
    fix c :: Coordinate
    obtain cx cy where c: "c = (cx, cy)" by (cases c)
    show "c \<in> set (writeList sz old new) \<longleftrightarrow> c \<in> set (footprint new sz) - set (footprint old sz)"
      unfolding c d writeList_def footprint_def using t
      by (simp add: set_region Let_def) (auto simp: max_def min_def)
  qed
qed


lemma region_disjoint:
  "b \<le> a' \<or> b' \<le> a \<or> d \<le> c' \<or> d' \<le> c \<Longrightarrow>
   set (region a b c d) \<inter> set (region a' b' c' d') = {}"
  by (auto simp: set_region)

lemma distinct_writeList:
  assumes "touching sz old new"
  shows "distinct (writeList sz old new)"
proof -
  obtain sw sh ox oy nx ny where d: "sz = (sw, sh)" "old = (ox, oy)" "new = (nx, ny)"
    by (cases sz; cases old; cases new) auto
  have t: "\<bar>nx - ox\<bar> \<le> sw" "\<bar>ny - oy\<bar> \<le> sh" using assms d by (simp_all add: touching_def)
  let ?oX = "max ox nx" and ?oY = "max oy ny"
  let ?oW = "min (ox + sw) (nx + sw) - ?oX" and ?oH = "min (oy + sh) (ny + sh) - ?oY"
  have w: "0 \<le> ?oW" "0 \<le> ?oH" using t by (auto simp: max_def min_def)
  have "set (region nx ?oX ny (ny + sh)) \<inter> set (region (?oX + ?oW) (nx + sw) ny (ny + sh)) = {}"
    "set (region nx ?oX ny (ny + sh)) \<inter> set (region ?oX (?oX + ?oW) ny ?oY) = {}"
    "set (region nx ?oX ny (ny + sh)) \<inter> set (region ?oX (?oX + ?oW) (?oY + ?oH) (ny + sh)) = {}"
    "set (region (?oX + ?oW) (nx + sw) ny (ny + sh)) \<inter> set (region ?oX (?oX + ?oW) ny ?oY) = {}"
    "set (region (?oX + ?oW) (nx + sw) ny (ny + sh)) \<inter> set (region ?oX (?oX + ?oW) (?oY + ?oH) (ny + sh)) = {}"
    "set (region ?oX (?oX + ?oW) ny ?oY) \<inter> set (region ?oX (?oX + ?oW) (?oY + ?oH) (ny + sh)) = {}"
    using w by (intro region_disjoint; simp)+
  then show ?thesis
    unfolding d writeList_def
    by (simp add: Let_def distinct_region Int_Un_distrib Int_Un_distrib2)
qed

lemma restructureMap_move:
  "\<not> outOfBounds w sz new \<Longrightarrow>
   restructureMap w i layer sz (Some old) (Some new) = returning True (moveCells w i layer sz old new)"
  by (simp add: restructureMap_def)

lemma moveObject_touching:
  assumes ini: "isInitialized w" and sh: "shape_ok w" and reg: "map_of (objects w) i = Some ob"
    and A: "\<forall>c\<in>set (footprint (obj_position ob) (obj_size ob)). inWorld w c"
    and B: "\<not> outOfBounds w (obj_size ob) p"
    and t: "touching (obj_size ob) (obj_position ob) p"
    and free: "\<forall>c\<in>set (footprint p (obj_size ob)) - set (footprint (obj_position ob) (obj_size ob)).
                lookupByLayer w (obj_layer ob) [c] = Inr [Null]"
  shows "\<exists>w'. moveObject w i p = (Inr (Some p), w') \<and>
     (\<forall>c\<in>set (footprint (obj_position ob) (obj_size ob)) \<inter> set (footprint p (obj_size ob)).
        lookupByLayer w' (obj_layer ob) [c] = lookupByLayer w (obj_layer ob) [c] \<and>
        c \<notin> set (clearList (obj_size ob) (obj_position ob) p) \<and>
        c \<notin> set (writeList (obj_size ob) (obj_position ob) p)) \<and>
     (\<forall>c\<in>set (footprint (obj_position ob) (obj_size ob)) - set (footprint p (obj_size ob)).
        lookupByLayer w' (obj_layer ob) [c] = Inr [Null]) \<and>
     (\<forall>c\<in>set (footprint p (obj_size ob)) - set (footprint (obj_position ob) (obj_size ob)).
        lookupByLayer w' (obj_layer ob) [c] = Inr [Obj (obj_id ob)]) \<and>
     (\<forall>r k. (r, k) \<notin> slotIndex (obj_layer ob) `
                 (set (footprint (obj_position ob) (obj_size ob)) \<union> set (footprint p (obj_size ob))) \<longrightarrow>
        readSlot (wmap w') r k = readSlot (wmap w) r k)"
proof -
  let ?A = "footprint (obj_position ob) (obj_size ob)" and ?B = "footprint p (obj_size ob)"
  let ?l = "obj_layer ob" and ?i = "obj_id ob"
  let ?CL = "clearList (obj_size ob) (obj_position ob) p"
  let ?WL = "writeList (obj_size ob) (obj_position ob) p"
  have cl: "set ?CL = set ?A - set ?B" using set_clearList[OF t] .
  have wl: "set ?WL = set ?B - set ?A" using set_writeList[OF t] .
  have Bw: "\<forall>c\<in>set ?B. inWorld w c" using footprint_inWorld[OF B] by blast
  have clW: "\<forall>c\<in>set ?CL. inWorld w c" using A cl by blast
  let ?w1 = "w\<lparr>wmap := putCells (wmap w) ?l ?CL Null\<rparr>"
  have p1: "setCells w ?CL ?l None = (Inr (), ?w1)" using setCells_clear[OF sh clW] .
  have sh1: "shape_ok ?w1" using shape_ok_putCells[OF sh] .
  have nnA: "\<forall>q\<in>set ?A. 0 \<le> fst q \<and> 0 \<le> snd q" using A by (simp add: inWorld_def)
  have nnB: "\<forall>q\<in>set ?B. 0 \<le> fst q \<and> 0 \<le> snd q" using Bw by (simp add: inWorld_def)
  have nnC: "\<forall>q\<in>set ?CL. 0 \<le> fst q \<and> 0 \<le> snd q" using nnA cl by blast
  have nnW: "\<forall>q\<in>set ?WL. 0 \<le> fst q \<and> 0 \<le> snd q" using nnB wl by blast
  have keep1: "slot (wmap ?w1) ?l c = slot (wmap w) ?l c" if "c \<notin> set ?CL" "inWorld w c" for c
    using slot_putCells_notin[OF that(1) _ _ nnC] that(2) by (simp add: inWorld_def)
  have wlW1: "\<forall>c\<in>set ?WL. inWorld ?w1 c" using Bw wl by (simp add: inWorld_def)
  have nl1: "\<forall>c\<in>set ?WL. slot (wmap ?w1) ?l c = Null"
  proof
    fix c assume c: "c \<in> set ?WL"
    then have cB: "c \<in> set ?B - set ?A" using wl by simp
    then have "c \<notin> set ?CL" "inWorld w c" using cl Bw by auto
    then have "slot (wmap ?w1) ?l c = slot (wmap w) ?l c" using keep1 by simp
    then show "slot (wmap ?w1) ?l c = Null"
      using lookup_slot[OF sh, of c ?l] free cB Bw by simp
  qed
  obtain w' where w': "setCells ?w1 ?WL ?l (Some ?i) = (Inr (), w')"
    "wmap w' = putCells (wmap ?w1) ?l ?WL (Obj ?i)" "frame_eq ?w1 w'" "shape_ok w'"
    using setCells_write[OF sh1 wlW1 distinct_writeList[OF t] nl1] by blast
  have mc: "moveCells w ?i ?l (obj_size ob) (obj_position ob) p = (Inr (), w')"
    unfolding moveCells_two_passes p1 using w'(1) by (simp add: andThen_def)
  have mo: "moveObject w i p = (Inr (Some p), w')"
    using ini reg mc by (simp add: moveObject_def restructureMap_move[OF B] returning_def)
  have inw': "inWorld w' c = inWorld w c" for c
    using w'(3) by (simp add: inWorld_def frame_eq_def)
  have keep2: "slot (wmap w') ?l c = slot (wmap ?w1) ?l c" if "c \<notin> set ?WL" "inWorld w c" for c
    using slot_putCells_notin[OF that(1) _ _ nnW] that(2) w'(2) by (simp add: inWorld_def)
  have lw: "lookupByLayer w ?l [c] = Inr [slot (wmap w) ?l c]" if "inWorld w c" for c
    using lookup_slot[OF sh that] .
  have lw': "lookupByLayer w' ?l [c] = Inr [slot (wmap w') ?l c]" if "inWorld w c" for c
    using lookup_slot[OF w'(4), of c ?l] that inw' by simp
  have a: "\<forall>c\<in>set ?A \<inter> set ?B.
        lookupByLayer w' ?l [c] = lookupByLayer w ?l [c] \<and> c \<notin> set ?CL \<and> c \<notin> set ?WL"
  proof
    fix c assume c: "c \<in> set ?A \<inter> set ?B"
    then have n: "c \<notin> set ?CL" "c \<notin> set ?WL" and i: "inWorld w c" using cl wl A by auto
    show "lookupByLayer w' ?l [c] = lookupByLayer w ?l [c] \<and> c \<notin> set ?CL \<and> c \<notin> set ?WL"
      using n keep1[OF n(1) i] keep2[OF n(2) i] lw[OF i] lw'[OF i] by simp
  qed
  have b: "\<forall>c\<in>set ?A - set ?B. lookupByLayer w' ?l [c] = Inr [Null]"
  proof
    fix c assume c: "c \<in> set ?A - set ?B"
    then have m: "c \<in> set ?CL" and n: "c \<notin> set ?WL" and i: "inWorld w c" using cl wl A by auto
    have "slot (wmap ?w1) ?l c = Null"
      using slot_putCells_in[OF sh clW m, of ?l Null] by simp
    then show "lookupByLayer w' ?l [c] = Inr [Null]"
      using keep2[OF n i] lw'[OF i] by simp
  qed
  have c: "\<forall>c\<in>set ?B - set ?A. lookupByLayer w' ?l [c] = Inr [Obj ?i]"
  proof
    fix c assume c: "c \<in> set ?B - set ?A"
    then have m: "c \<in> set ?WL" and i: "inWorld w c" using wl Bw by auto
    have "slot (wmap w') ?l c = Obj ?i"
      using slot_putCells_in[OF sh1 wlW1 m, of ?l "Obj ?i"] w'(2) by simp
    then show "lookupByLayer w' ?l [c] = Inr [Obj ?i]" using lw'[OF i] by simp
  qed
  have d: "\<forall>r k. (r, k) \<notin> slotIndex ?l ` (set ?A \<union> set ?B) \<longrightarrow>
        readSlot (wmap w') r k = readSlot (wmap w) r k"
  proof (intro allI impI)
    fix r k assume o: "(r, k) \<notin> slotIndex ?l ` (set ?A \<union> set ?B)"
    then have o1: "(r, k) \<notin> slotIndex ?l ` set ?CL" and o2: "(r, k) \<notin> slotIndex ?l ` set ?WL"
      using cl wl by auto
    show "readSlot (wmap w') r k = readSlot (wmap w) r k"
      using readSlot_putCells_other[OF nnW o2] readSlot_putCells_other[OF nnC o1] w'(2) by simp
  qed
  show ?thesis using mo a b c d by blast
qed


lemma moveObject_touching_example:
  "lookupByLayer worldB GROUND [(0, 0), (1, 0), (2, 0)] = Inr [Obj ''brick/B'', Obj ''brick/B'', Null] \<and>
   (\<exists>w'. moveObject worldB ''brick/B'' (1, 0) = (Inr (Some (1, 0)), w') \<and>
      lookupByLayer w' GROUND [(0, 0)] = Inr [Null] \<and>
      lookupByLayer w' GROUND [(1, 0)] = Inr [Obj ''brick/B''] \<and>
      lookupByLayer w' GROUND [(2, 0)] = Inr [Obj ''brick/B''])"
proof -
  let ?ob = "wideB\<lparr>obj_isInitialized := True\<rparr>"
  let ?A = "footprint (obj_position ?ob) (obj_size ?ob)" and ?B = "footprint (1, 0) (obj_size ?ob)"
  have i: "isInitialized worldB" by code_simp
  have sh: "shape_ok worldB" by code_simp
  have r: "map_of (objects worldB) ''brick/B'' = Some ?ob" by code_simp
  have fa: "?A = [(0, 0), (1, 0)]" and fb: "?B = [(1, 0), (2, 0)]" by code_simp+
  have A: "\<forall>c\<in>set ?A. inWorld worldB c" by code_simp
  have B: "\<not> outOfBounds worldB (obj_size ?ob) (1, 0)" by code_simp
  have t: "touching (obj_size ?ob) (obj_position ?ob) (1, 0)" by code_simp
  have free: "\<forall>c\<in>set ?B - set ?A. lookupByLayer worldB (obj_layer ?ob) [c] = Inr [Null]"
    by code_simp
  have l: "obj_layer ?ob = GROUND" "obj_id ?ob = ''brick/B''" by code_simp+
  have before: "lookupByLayer worldB GROUND [(0, 0), (1, 0), (2, 0)]
      = Inr [Obj ''brick/B'', Obj ''brick/B'', Null]" "lookupByLayer worldB GROUND [(1, 0)] = Inr [Obj ''brick/B'']"
    by code_simp+
  have m: "(1, 0) \<in> set ?A \<inter> set ?B" "(0, 0) \<in> set ?A - set ?B" "(2, 0) \<in> set ?B - set ?A"
    unfolding fa fb by simp_all
  obtain w' where w': "moveObject worldB ''brick/B'' (1, 0) = (Inr (Some (1, 0)), w')"
    "\<forall>c\<in>set ?A \<inter> set ?B. lookupByLayer w' (obj_layer ?ob) [c] = lookupByLayer worldB (obj_layer ?ob) [c] \<and>
        c \<notin> set (clearList (obj_size ?ob) (obj_position ?ob) (1, 0)) \<and>
        c \<notin> set (writeList (obj_size ?ob) (obj_position ?ob) (1, 0))"
    "\<forall>c\<in>set ?A - set ?B. lookupByLayer w' (obj_layer ?ob) [c] = Inr [Null]"
    "\<forall>c\<in>set ?B - set ?A. lookupByLayer w' (obj_layer ?ob) [c] = Inr [Obj (obj_id ?ob)]"
    using moveObject_touching[OF i sh r A B t free] by blast
  have "lookupByLayer w' GROUND [(1, 0)] = Inr [Obj ''brick/B'']"
    using bspec[OF w'(2) m(1)] before(2) unfolding l by simp
  moreover have "lookupByLayer w' GROUND [(0, 0)] = Inr [Null]"
    using bspec[OF w'(3) m(2)] unfolding l .
  moreover have "lookupByLayer w' GROUND [(2, 0)] = Inr [Obj ''brick/B'']"
    using bspec[OF w'(4) m(3)] unfolding l .
  ultimately show ?thesis using w'(1) before(1) by blast
qed

section \<open>Moving\<close>

text \<open>
  Claim C6. A registered object is asked to move to a position where a cell of its
  rectangle lies outside the world: \<^verbatim>\<open>moveObject\<close> returns nothing and the world,
  buffer and registry included, is the one it was called on.
\<close>

theorem moveObject_out_of_bounds:
  assumes "map_of (objects w) objectID = Some ob"
    and "c \<in> set (footprint p (obj_size ob))" and "\<not> inWorld w c"
  shows "moveObject w objectID p = (Inr None, w)"
proof -
  have "outOfBounds w (obj_size ob) p"
    using assms(2,3) footprint_inWorld by blast
  then have "restructureMap w (obj_id ob) (obj_layer ob) (obj_size ob) (Some (obj_position ob)) (Some p)
      = (Inr False, w)"
    by (simp add: restructureMap_def)
  then show ?thesis using assms(1) by (simp add: moveObject_def)
qed

theorem moveObject_out_of_bounds_witness:
  "moveObject worldA ''brick/A'' (5, 0) = (Inr None, worldA) \<and>
   map_of (objects worldA) ''brick/A'' \<noteq> None \<and>
   lookupByLayer worldA GROUND [(1, 0)] = Inr [Obj ''brick/A'']"
proof -
  have r: "map_of (objects worldA) ''brick/A'' = Some (brickA\<lparr>obj_isInitialized := True\<rparr>)"
    by code_simp
  have f: "(5, 0) \<in> set (footprint (5, 0) (obj_size (brickA\<lparr>obj_isInitialized := True\<rparr>)))"
    by code_simp
  have o: "\<not> inWorld worldA (5, 0)" by code_simp
  have l: "lookupByLayer worldA GROUND [(1, 0)] = Inr [Obj ''brick/A'']" by code_simp
  show ?thesis using moveObject_out_of_bounds[OF r f o] r l by simp
qed

text \<open>
  Claim C1. \<^verbatim>\<open>brick/A\<close>, one cell wide, stands at \<open>(1, 0)\<close> and moves to \<open>(4, 0)\<close>;
  the two rectangles do not meet and \<open>(2, 0)\<close>, \<open>(3, 0)\<close> belong to neither. The
  overlap width is negative, the first clearing loop runs from the old column up to
  the new one and the second writing loop from the old right edge to the new one:
  after the move the identity stands in \<open>(2, 0)\<close> and \<open>(3, 0)\<close> as well. For
  rectangles that overlap or touch the move is the one the claim describes
  (\<open>moveObject_touching\<close>).
\<close>

theorem moveObject_across_gap:
  "fst (moveObject worldA ''brick/A'' (4, 0)) = Inr (Some (4, 0)) \<and>
   lookupByLayer worldA GROUND [(1, 0), (2, 0), (3, 0), (4, 0)]
     = Inr [Obj ''brick/A'', Null, Null, Null] \<and>
   lookupByLayer (snd (moveObject worldA ''brick/A'' (4, 0))) GROUND [(1, 0), (2, 0), (3, 0), (4, 0)]
     = Inr [Null, Obj ''brick/A'', Obj ''brick/A'', Obj ''brick/A'']"
  by code_simp

section \<open>Addressing\<close>

text \<open>
  Claim C3. The slot of a cell is column \<open>x + layer\<close> of its row, so the cell
  \<open>(1, 0)\<close> of GROUND and the cell \<open>(2, 0)\<close> of UNDERGROUND are one slot: placing
  \<^verbatim>\<open>brick/A\<close> on GROUND at \<open>(1, 0)\<close> changes what UNDERGROUND reads at \<open>(2, 0)\<close>, a
  position outside the brick's rectangle, from empty to the brick.
\<close>

theorem layers_share_slots:
  "lookupByLayer (snd (installObject readyWorld brickA)) UNDERGROUND [(2, 0)] = Inr [Null] \<and>
   worldA = snd (placeObject (snd (installObject readyWorld brickA)) ''brick/A'' None) \<and>
   (2, 0) \<notin> set (footprint (obj_position brickA) (obj_size brickA)) \<and>
   lookupByLayer worldA UNDERGROUND [(2, 0)] = Inr [Obj ''brick/A'']"
  by code_simp

section \<open>Before init\<close>

text \<open>
  On a world that is not initialized \<^verbatim>\<open>installObject\<close>, \<^verbatim>\<open>uninstallObject\<close>,
  \<^verbatim>\<open>placeObject\<close> and \<^verbatim>\<open>displaceObject\<close> throw the not-initialized error. None of the
  five mutating operations changes such a world.
\<close>

lemma operations_before_init:
  assumes "\<not> isInitialized w"
  shows "installObject w ob = (Inl NotInitialized, w) \<and>
         uninstallObject w objectID = (Inl NotInitialized, w) \<and>
         placeObject w objectID position = (Inl NotInitialized, w) \<and>
         displaceObject w objectID = (Inl NotInitialized, w) \<and>
         snd (moveObject w objectID newPosition) = w"
  using assms
  by (simp add: installObject_def uninstallObject_def placeObject_def displaceObject_def
      moveObject_def)

lemma operations_before_init_example:
  "installObject coldWorld wideB = (Inl NotInitialized, coldWorld) \<and>
   uninstallObject coldWorld ''brick/A'' = (Inl NotInitialized, coldWorld) \<and>
   placeObject coldWorld ''brick/A'' None = (Inl NotInitialized, coldWorld) \<and>
   displaceObject coldWorld ''brick/A'' = (Inl NotInitialized, coldWorld) \<and>
   snd (moveObject coldWorld ''brick/A'' (2, 0)) = coldWorld"
proof -
  have n: "\<not> isInitialized coldWorld" by code_simp
  show ?thesis using operations_before_init[OF n] by simp
qed

text \<open>
  Claim C7. \<^verbatim>\<open>moveObject\<close> guards with a plain \<^verbatim>\<open>return\<close> where its four siblings
  throw: on a world that is not initialized and holds \<^verbatim>\<open>brick/A\<close> it returns nothing
  and throws nothing, so the call fails silently where the claim says it raises.
\<close>

theorem moveObject_before_init_silent:
  "\<not> isInitialized coldWorld \<and> map_of (objects coldWorld) ''brick/A'' = Some brickA \<and>
   fst (placeObject coldWorld ''brick/A'' (Some (2, 0))) = Inl NotInitialized \<and>
   fst (moveObject coldWorld ''brick/A'' (2, 0)) = Inr None"
  by code_simp

section \<open>Uninstalling and displacing\<close>

text \<open>
  Claim C8. \<^verbatim>\<open>uninstallAndDisplaceObject\<close> uninstalls first, so \<^verbatim>\<open>displaceObject\<close> no
  longer finds the object: for the placed \<^verbatim>\<open>brick/A\<close> it returns false, the registry
  has lost the brick and its cell still holds its identity.
\<close>

theorem uninstallAndDisplace_keeps_cells:
  "map_of (objects worldA) ''brick/A'' \<noteq> None \<and>
   fst (uninstallAndDisplaceObject worldA ''brick/A'') = Inr False \<and>
   map_of (objects (snd (uninstallAndDisplaceObject worldA ''brick/A''))) ''brick/A'' = None \<and>
   lookupByLayer (snd (uninstallAndDisplaceObject worldA ''brick/A'')) GROUND [(1, 0)]
     = Inr [Obj ''brick/A'']"
  by code_simp

text \<open>
  Claim C10, as the code has it. In an initialized world \<^verbatim>\<open>displaceObject\<close> returns
  false for an identity the registry does not hold and never for one it holds. For a
  registered object whose stored rectangle lies inside the world (the buffer having the
  constructor's shape) it returns true and every cell of that rectangle reads empty on
  the object's layer afterwards, whatever the cells held.
\<close>

theorem displaceObject_registered:
  assumes "isInitialized w"
  shows "(map_of (objects w) i = None \<longrightarrow> displaceObject w i = (Inr False, w)) \<and>
     (\<forall>ob. map_of (objects w) i = Some ob \<longrightarrow>
        fst (displaceObject w i) \<noteq> Inr False \<and>
        (shape_ok w \<and> (\<forall>c\<in>set (footprint (obj_position ob) (obj_size ob)). inWorld w c) \<longrightarrow>
           (\<exists>w'. displaceObject w i = (Inr True, w') \<and>
              (\<forall>c\<in>set (footprint (obj_position ob) (obj_size ob)).
                 lookupByLayer w' (obj_layer ob) [c] = Inr [Null]))))"
proof (intro conjI allI impI)
  assume "map_of (objects w) i = None"
  then show "displaceObject w i = (Inr False, w)"
    using assms by (simp add: displaceObject_def)
next
  fix ob assume reg: "map_of (objects w) i = Some ob"
  let ?fp = "footprint (obj_position ob) (obj_size ob)"
  obtain r w2 where s: "setCells w ?fp (obj_layer ob) None = (r, w2)"
    by (cases "setCells w ?fp (obj_layer ob) None")
  show "fst (displaceObject w i) \<noteq> Inr False"
    using assms reg s
    by (cases r) (simp_all add: displaceObject_def restructureMap_remove returning_def)
next
  fix ob assume reg: "map_of (objects w) i = Some ob"
    and h: "shape_ok w \<and> (\<forall>c\<in>set (footprint (obj_position ob) (obj_size ob)). inWorld w c)"
  let ?fp = "footprint (obj_position ob) (obj_size ob)"
  let ?w' = "w\<lparr>wmap := putCells (wmap w) (obj_layer ob) ?fp Null\<rparr>"
  have d: "displaceObject w i = (Inr True, ?w')"
    using displaceObject_char[OF assms _ reg] h by simp
  have sh: "shape_ok ?w'"
    using shape_ok_putCells[of w "obj_layer ob" ?fp Null] h by (simp add: shape_ok_def)
  have "\<forall>c\<in>set ?fp. lookupByLayer ?w' (obj_layer ob) [c] = Inr [Null]"
  proof
    fix c assume c: "c \<in> set ?fp"
    then have "inWorld ?w' c" using h by (simp add: inWorld_def)
    then show "lookupByLayer ?w' (obj_layer ob) [c] = Inr [Null]"
      using lookup_slot[OF sh, of c "obj_layer ob"] slot_putCells_in[of w ?fp c "obj_layer ob" Null] h c
      by simp
  qed
  then show "\<exists>w'. displaceObject w i = (Inr True, w') \<and>
      (\<forall>c\<in>set ?fp. lookupByLayer w' (obj_layer ob) [c] = Inr [Null])"
    using d by blast
qed

theorem displaceObject_registered_witness:
  "map_of (objects worldA) ''brick/A'' = Some (brickA\<lparr>obj_isInitialized := True\<rparr>) \<and>
   (\<exists>w'. displaceObject worldA ''brick/A'' = (Inr True, w') \<and>
         lookupByLayer w' GROUND [(1, 0)] = Inr [Null]) \<and>
   displaceObject worldA ''brick/Z'' = (Inr False, worldA)"
proof -
  let ?ob = "brickA\<lparr>obj_isInitialized := True\<rparr>"
  have i: "isInitialized worldA" by code_simp
  have r: "map_of (objects worldA) ''brick/A'' = Some ?ob" by code_simp
  have z: "map_of (objects worldA) ''brick/Z'' = None" by code_simp
  have sh: "shape_ok worldA" by code_simp
  have fp: "footprint (obj_position ?ob) (obj_size ?ob) = [(1, 0)]" by code_simp
  have inw: "inWorld worldA (1, 0)" by code_simp
  have l: "obj_layer ?ob = GROUND" by code_simp
  show ?thesis
    using displaceObject_registered[OF i, of "''brick/A''"]
      displaceObject_registered[OF i, of "''brick/Z''"] r z sh fp inw l
    by simp
qed

text \<open>
  Claim C10 as stated fails for a registered object whose stored rectangle lies outside
  the world: \<^verbatim>\<open>brick/F\<close> was installed with position \<open>(7, 0)\<close> in a world five cells
  wide, and displacing it throws the out-of-bounds error of \<^verbatim>\<open>setMapCell\<close>.
\<close>

theorem displaceObject_outside_throws:
  "isInitialized worldF \<and> map_of (objects worldF) ''brick/F'' \<noteq> None \<and>
   fst (displaceObject worldF ''brick/F'') = Inl (OutOfBounds 7 0)"
  by code_simp

section \<open>The stored position after a move\<close>

text \<open>
  Claim C9. A successful \<^verbatim>\<open>moveObject\<close> leaves the registry as it was, the stored
  position of the object with it. A \<^verbatim>\<open>displaceObject\<close> that follows therefore clears
  the rectangle at the position from before the move and no other cell of the layer
  (for a buffer of the constructor's shape and a rectangle inside the world), and a
  second \<^verbatim>\<open>moveObject\<close> takes that position as the old one.
\<close>

theorem moveObject_keeps_stored_position:
  assumes mv: "moveObject w i p = (Inr (Some q), w')" and reg: "map_of (objects w) i = Some ob"
  shows "objects w' = objects w \<and> map_of (objects w') i = Some ob \<and>
    (shape_ok w \<and> (\<forall>c\<in>set (footprint (obj_position ob) (obj_size ob)). inWorld w c) \<longrightarrow>
       (\<exists>w''. displaceObject w' i = (Inr True, w'') \<and>
          (\<forall>c\<in>set (footprint (obj_position ob) (obj_size ob)).
             lookupByLayer w'' (obj_layer ob) [c] = Inr [Null]) \<and>
          (\<forall>c. inWorld w c \<and> c \<notin> set (footprint (obj_position ob) (obj_size ob)) \<longrightarrow>
             lookupByLayer w'' (obj_layer ob) [c] = lookupByLayer w' (obj_layer ob) [c]))) \<and>
    (\<forall>p2. \<not> outOfBounds w' (obj_size ob) p2 \<longrightarrow>
       snd (moveObject w' i p2) =
       snd (moveCells w' (obj_id ob) (obj_layer ob) (obj_size ob) (obj_position ob) p2))"
proof -
  let ?fp = "footprint (obj_position ob) (obj_size ob)"
  let ?l = "obj_layer ob"
  note ms = moveObject_success[OF mv reg]
  have fr: "frame_eq w w'" using ms(3) restructureMap_frame by simp
  have ob: "objects w' = objects w" and ini: "isInitialized w'"
    using fr ms(1) by (simp_all add: frame_eq_def)
  have reg': "map_of (objects w') i = Some ob" using ob reg by simp
  have disp: "\<exists>w''. displaceObject w' i = (Inr True, w'') \<and>
          (\<forall>c\<in>set ?fp. lookupByLayer w'' ?l [c] = Inr [Null]) \<and>
          (\<forall>c. inWorld w c \<and> c \<notin> set ?fp \<longrightarrow>
             lookupByLayer w'' ?l [c] = lookupByLayer w' ?l [c])"
    if h: "shape_ok w \<and> (\<forall>c\<in>set ?fp. inWorld w c)"
  proof -
    have sh': "shape_ok w'" using restructureMap_inv[of w] h ms(3) by (simp add: inv_def)
    have inw': "\<forall>c\<in>set ?fp. inWorld w' c" using h inWorld_frame[OF fr] by simp
    let ?w'' = "w'\<lparr>wmap := putCells (wmap w') ?l ?fp Null\<rparr>"
    have d: "displaceObject w' i = (Inr True, ?w'')"
      using displaceObject_char[OF ini sh' reg' inw'] .
    have sh'': "shape_ok ?w''"
      using shape_ok_putCells[OF sh', of ?l ?fp Null] by (simp add: shape_ok_def)
    have nn: "\<forall>q\<in>set ?fp. 0 \<le> fst q \<and> 0 \<le> snd q" using h by (simp add: inWorld_def)
    have a: "\<forall>c\<in>set ?fp. lookupByLayer ?w'' ?l [c] = Inr [Null]"
    proof
      fix c assume c: "c \<in> set ?fp"
      then have "inWorld ?w'' c" using inw' by (simp add: inWorld_def)
      then show "lookupByLayer ?w'' ?l [c] = Inr [Null]"
        using lookup_slot[OF sh'', of c ?l] slot_putCells_in[OF sh' inw' c, of ?l Null] by simp
    qed
    have b: "\<forall>c. inWorld w c \<and> c \<notin> set ?fp \<longrightarrow>
        lookupByLayer ?w'' ?l [c] = lookupByLayer w' ?l [c]"
    proof (intro allI impI)
      fix c assume c: "inWorld w c \<and> c \<notin> set ?fp"
      then have i1: "inWorld w' c" using inWorld_frame[OF fr] by simp
      then have i2: "inWorld ?w'' c" by (simp add: inWorld_def)
      have "slot (putCells (wmap w') ?l ?fp Null) ?l c = slot (wmap w') ?l c"
        using slot_putCells_notin[where c=c and cs="?fp" and l="?l" and m="wmap w'" and v=Null] c nn
        by (simp add: inWorld_def)
      then show "lookupByLayer ?w'' ?l [c] = lookupByLayer w' ?l [c]"
        using lookup_slot[OF sh'' i2, of ?l] lookup_slot[OF sh' i1, of ?l] by simp
    qed
    show ?thesis using d a b by blast
  qed
  have mv2: "\<forall>p2. \<not> outOfBounds w' (obj_size ob) p2 \<longrightarrow>
       snd (moveObject w' i p2) =
       snd (moveCells w' (obj_id ob) (obj_layer ob) (obj_size ob) (obj_position ob) p2)"
  proof (intro allI impI)
    fix p2 assume nb: "\<not> outOfBounds w' (obj_size ob) p2"
    obtain r w2 where m: "moveCells w' (obj_id ob) ?l (obj_size ob) (obj_position ob) p2 = (r, w2)"
      by (cases "moveCells w' (obj_id ob) ?l (obj_size ob) (obj_position ob) p2")
    show "snd (moveObject w' i p2) =
       snd (moveCells w' (obj_id ob) (obj_layer ob) (obj_size ob) (obj_position ob) p2)"
      using ini reg' nb m
      by (cases r) (simp_all add: moveObject_def restructureMap_def returning_def)
  qed
  show ?thesis using ob reg' disp mv2 by blast
qed

theorem moveObject_keeps_stored_position_witness:
  "fst (moveObject worldA ''brick/A'' (2, 0)) = Inr (Some (2, 0)) \<and>
   map_of (objects (snd (moveObject worldA ''brick/A'' (2, 0)))) ''brick/A''
     = Some (brickA\<lparr>obj_isInitialized := True\<rparr>) \<and>
   obj_position (brickA\<lparr>obj_isInitialized := True\<rparr>) = (1, 0) \<and>
   (\<exists>w''. displaceObject (snd (moveObject worldA ''brick/A'' (2, 0))) ''brick/A'' = (Inr True, w'') \<and>
      lookupByLayer w'' GROUND [(1, 0)] = Inr [Null] \<and>
      lookupByLayer w'' GROUND [(2, 0)] = Inr [Obj ''brick/A''])"
proof -
  let ?ob = "brickA\<lparr>obj_isInitialized := True\<rparr>"
  let ?w' = "snd (moveObject worldA ''brick/A'' (2, 0))"
  have mv: "moveObject worldA ''brick/A'' (2, 0) = (Inr (Some (2, 0)), ?w')"
    by (rule prod_eqI) (code_simp, simp)
  have r: "map_of (objects worldA) ''brick/A'' = Some ?ob" by code_simp
  have sh: "shape_ok worldA" by code_simp
  have fp: "footprint (obj_position ?ob) (obj_size ?ob) = [(1, 0)]" by code_simp
  have inw: "inWorld worldA (1, 0)" "inWorld worldA (2, 0)" by code_simp+
  have l: "obj_layer ?ob = GROUND" "obj_position ?ob = (1, 0)" by code_simp+
  have after: "lookupByLayer ?w' GROUND [(2, 0)] = Inr [Obj ''brick/A'']" by code_simp
  have ok: "fst (moveObject worldA ''brick/A'' (2, 0)) = Inr (Some (2, 0))" by code_simp
  have out: "(2, 0) \<notin> set (footprint (obj_position ?ob) (obj_size ?ob))"
    unfolding fp by simp
  have h: "shape_ok worldA \<and> (\<forall>c\<in>set (footprint (obj_position ?ob) (obj_size ?ob)). inWorld worldA c)"
    unfolding fp using sh inw by simp
  note t = moveObject_keeps_stored_position[OF mv r]
  have reg': "map_of (objects ?w') ''brick/A'' = Some ?ob" using t by blast
  obtain w'' where w'': "displaceObject ?w' ''brick/A'' = (Inr True, w'')"
    "\<forall>c\<in>set (footprint (obj_position ?ob) (obj_size ?ob)). lookupByLayer w'' (obj_layer ?ob) [c] = Inr [Null]"
    "\<forall>c. inWorld worldA c \<and> c \<notin> set (footprint (obj_position ?ob) (obj_size ?ob)) \<longrightarrow>
        lookupByLayer w'' (obj_layer ?ob) [c] = lookupByLayer ?w' (obj_layer ?ob) [c]"
    using t h by blast
  have mem: "(1, 0) \<in> set (footprint (obj_position ?ob) (obj_size ?ob))"
    unfolding fp by simp
  have a: "lookupByLayer w'' GROUND [(1, 0)] = Inr [Null]"
    using bspec[OF w''(2) mem] unfolding l(1) .
  have "lookupByLayer w'' (obj_layer ?ob) [(2, 0)] = lookupByLayer ?w' (obj_layer ?ob) [(2, 0)]"
    using w''(3) inw(2) out by blast
  then have b: "lookupByLayer w'' GROUND [(2, 0)] = Inr [Obj ''brick/A'']"
    unfolding l(1) using after by simp
  show ?thesis using ok reg' l(2) w''(1) a b by blast
qed

section \<open>Notifications\<close>

text \<open>
  What the code does at a write into an empty cell inside the world: when the world is
  initialized, a session is bound and some other layer reads non-empty at the position,
  one INTERSECT event is added with every non-empty read of the other layers.
\<close>

lemma setMapCell_write_events:
  assumes "shape_ok w" "isInitialized w" "inWorld w c" "lookupByLayer w layer [c] = Inr [Null]"
  shows "\<exists>w'. setMapCell w c layer (Some i) = (Inr (), w') \<and>
     lookupByLayer w' layer [c] = Inr [Obj i] \<and>
     sentEvents w' =
       sentEvents w @ (if gameSession w = None \<or> otherOccupants w layer c = [] then []
                       else [(i, otherOccupants w layer c)]) \<and>
     (gameSession w' = None \<longleftrightarrow> gameSession w = None)"
proof -
  let ?w' = "written w layer c i"
  have nl: "slot (wmap w) layer c = Null"
    using lookup_slot[OF assms(1,3), of layer] assms(4) by simp
  have st: "setMapCell w c layer (Some i) = (Inr (), ?w')"
    using setMapCell_write[OF assms(1,3) nl] .
  have sh: "shape_ok ?w'" using shape_ok_written[OF assms(1)] .
  have inw: "inWorld ?w' c" using assms(3) inWorld_frame[OF written_frame(2)] by simp
  have rd: "lookupByLayer ?w' layer [c] = Inr [Obj i]"
    using lookup_slot[OF sh inw, of layer] slot_putSlot_same[OF assms(1,3), of layer "Obj i"]
    by (simp add: written_frame(1))
  have ev: "sentEvents ?w' =
       sentEvents w @ (if gameSession w = None \<or> otherOccupants w layer c = [] then []
                       else [(i, otherOccupants w layer c)])"
    using assms(2) by (simp add: sentEvents_written(1))
  show ?thesis using st rd ev sentEvents_written(2) by blast
qed

text \<open>
  Claim C5, as the code has it by design. An initialized world, its buffer of the
  constructor's shape, writes an identity into an empty cell inside the world. When a
  session is bound, some other layer holds a different identity at that position and
  none holds the written identity itself, exactly one INTERSECT event is added, with
  the written identity as initiator and exactly those occupants, in the order of the
  layers. When every other layer reads empty there, or no session is bound, no event is
  added. What is sent when another layer reads the written identity itself, which only
  the shared slots of claim C3 make possible, is left open.
\<close>

theorem setMapCell_notifies:
  assumes "shape_ok w" "isInitialized w" "inWorld w c" "lookupByLayer w layer [c] = Inr [Null]"
  shows "\<exists>w'. setMapCell w c layer (Some i) = (Inr (), w') \<and>
     lookupByLayer w' layer [c] = Inr [Obj i] \<and>
     (gameSession w = None \<or> otherOccupants w layer c = [] \<longrightarrow> sentEvents w' = sentEvents w) \<and>
     (gameSession w \<noteq> None \<and> differentOccupants w layer c i \<noteq> [] \<and>
      Obj i \<notin> set (otherOccupants w layer c) \<longrightarrow>
        sentEvents w' = sentEvents w @ [(i, differentOccupants w layer c i)]) \<and>
     (gameSession w' = None \<longleftrightarrow> gameSession w = None)"
proof -
  obtain w' where ww: "setMapCell w c layer (Some i) = (Inr (), w') \<and>
     lookupByLayer w' layer [c] = Inr [Obj i] \<and>
     sentEvents w' =
       sentEvents w @ (if gameSession w = None \<or> otherOccupants w layer c = [] then []
                       else [(i, otherOccupants w layer c)]) \<and>
     (gameSession w' = None \<longleftrightarrow> gameSession w = None)"
    using setMapCell_write_events[OF assms, of i] by (rule exE)
  note w' = ww[THEN conjunct1] ww[THEN conjunct2, THEN conjunct1]
    ww[THEN conjunct2, THEN conjunct2, THEN conjunct1]
    ww[THEN conjunct2, THEN conjunct2, THEN conjunct2]
  have a: "gameSession w = None \<or> otherOccupants w layer c = [] \<longrightarrow> sentEvents w' = sentEvents w"
    using w'(3) by auto
  have b: "sentEvents w' = sentEvents w @ [(i, differentOccupants w layer c i)]"
    if h: "gameSession w \<noteq> None \<and> differentOccupants w layer c i \<noteq> [] \<and>
           Obj i \<notin> set (otherOccupants w layer c)"
  proof -
    have e: "differentOccupants w layer c i = otherOccupants w layer c"
      unfolding differentOccupants_def using h by (intro filter_True) auto
    then have "otherOccupants w layer c \<noteq> []" using h by simp
    then show ?thesis using w'(3) h e by simp
  qed
  show ?thesis
  proof (intro exI[of _ w'] conjI)
    show "setMapCell w c layer (Some i) = (Inr (), w')" by (rule w'(1))
    show "lookupByLayer w' layer [c] = Inr [Obj i]" by (rule w'(2))
    show "gameSession w = None \<or> otherOccupants w layer c = [] \<longrightarrow> sentEvents w' = sentEvents w"
      by (rule a)
    show "gameSession w \<noteq> None \<and> differentOccupants w layer c i \<noteq> [] \<and>
        Obj i \<notin> set (otherOccupants w layer c) \<longrightarrow>
        sentEvents w' = sentEvents w @ [(i, differentOccupants w layer c i)]"
      by (rule impI) (rule b)
    show "gameSession w' = None \<longleftrightarrow> gameSession w = None" by (rule w'(4))
  qed
qed

theorem setMapCell_notifies_witness:
  "lookupByLayer sessionWorldA GROUND [(1, 0)] = Inr [Obj ''brick/A''] \<and>
   sentEvents sessionWorldA = [] \<and>
   (\<exists>w'. setMapCell sessionWorldA (1, 0) UNDERGROUND (Some ''item/U'') = (Inr (), w') \<and>
      sentEvents w' = [(''item/U'', [Obj ''brick/A''])]) \<and>
   (\<exists>w'. setMapCell sessionWorldA (3, 1) UNDERGROUND (Some ''item/U'') = (Inr (), w') \<and>
      sentEvents w' = [])"
proof -
  have sh: "shape_ok sessionWorldA" by code_simp
  have ini: "isInitialized sessionWorldA" by code_simp
  have inw: "inWorld sessionWorldA (1, 0)" "inWorld sessionWorldA (3, 1)" by code_simp+
  have nl: "lookupByLayer sessionWorldA UNDERGROUND [(1, 0)] = Inr [Null]"
    "lookupByLayer sessionWorldA UNDERGROUND [(3, 1)] = Inr [Null]" by code_simp+
  have a: "lookupByLayer sessionWorldA GROUND [(1, 0)] = Inr [Obj ''brick/A'']" by code_simp
  have ev: "sentEvents sessionWorldA = []" by code_simp
  have gs: "gameSession sessionWorldA \<noteq> None" by code_simp
  have oc: "otherOccupants sessionWorldA UNDERGROUND (1, 0) = [Obj ''brick/A'']"
    "otherOccupants sessionWorldA UNDERGROUND (3, 1) = []" by code_simp+
  have dc: "differentOccupants sessionWorldA UNDERGROUND (1, 0) ''item/U'' = [Obj ''brick/A'']"
    by code_simp
  have ni: "Obj ''item/U'' \<notin> set (otherOccupants sessionWorldA UNDERGROUND (1, 0))"
    unfolding oc by simp
  let ?s1 = "setMapCell sessionWorldA (1, 0) UNDERGROUND (Some ''item/U'')"
  let ?s2 = "setMapCell sessionWorldA (3, 1) UNDERGROUND (Some ''item/U'')"
  obtain w1 where ww1: "?s1 = (Inr (), w1) \<and>
     lookupByLayer w1 UNDERGROUND [(1, 0)] = Inr [Obj ''item/U''] \<and>
     (gameSession sessionWorldA = None \<or> otherOccupants sessionWorldA UNDERGROUND (1, 0) = [] \<longrightarrow>
        sentEvents w1 = sentEvents sessionWorldA) \<and>
     (gameSession sessionWorldA \<noteq> None \<and>
      differentOccupants sessionWorldA UNDERGROUND (1, 0) ''item/U'' \<noteq> [] \<and>
      Obj ''item/U'' \<notin> set (otherOccupants sessionWorldA UNDERGROUND (1, 0)) \<longrightarrow>
        sentEvents w1 = sentEvents sessionWorldA @
          [(''item/U'', differentOccupants sessionWorldA UNDERGROUND (1, 0) ''item/U'')]) \<and>
     (gameSession w1 = None \<longleftrightarrow> gameSession sessionWorldA = None)"
    using setMapCell_notifies[OF sh ini inw(1) nl(1), of "''item/U''"] by (rule exE)
  obtain w2 where ww2: "?s2 = (Inr (), w2) \<and>
     lookupByLayer w2 UNDERGROUND [(3, 1)] = Inr [Obj ''item/U''] \<and>
     (gameSession sessionWorldA = None \<or> otherOccupants sessionWorldA UNDERGROUND (3, 1) = [] \<longrightarrow>
        sentEvents w2 = sentEvents sessionWorldA) \<and>
     (gameSession sessionWorldA \<noteq> None \<and>
      differentOccupants sessionWorldA UNDERGROUND (3, 1) ''item/U'' \<noteq> [] \<and>
      Obj ''item/U'' \<notin> set (otherOccupants sessionWorldA UNDERGROUND (3, 1)) \<longrightarrow>
        sentEvents w2 = sentEvents sessionWorldA @
          [(''item/U'', differentOccupants sessionWorldA UNDERGROUND (3, 1) ''item/U'')]) \<and>
     (gameSession w2 = None \<longleftrightarrow> gameSession sessionWorldA = None)"
    using setMapCell_notifies[OF sh ini inw(2) nl(2), of "''item/U''"] by (rule exE)
  have q1: "gameSession sessionWorldA \<noteq> None \<and>
      differentOccupants sessionWorldA UNDERGROUND (1, 0) ''item/U'' \<noteq> [] \<and>
      Obj ''item/U'' \<notin> set (otherOccupants sessionWorldA UNDERGROUND (1, 0))"
    unfolding dc using gs ni by simp
  have q2: "gameSession sessionWorldA = None \<or> otherOccupants sessionWorldA UNDERGROUND (3, 1) = []"
    using oc(2) by simp
  have e1: "sentEvents w1 = sentEvents sessionWorldA @
          [(''item/U'', differentOccupants sessionWorldA UNDERGROUND (1, 0) ''item/U'')]"
    using ww1[THEN conjunct2, THEN conjunct2, THEN conjunct2, THEN conjunct1] q1 by (rule mp)
  have e2: "sentEvents w2 = sentEvents sessionWorldA"
    using ww2[THEN conjunct2, THEN conjunct2, THEN conjunct1] q2 by (rule mp)
  have r1: "?s1 = (Inr (), w1) \<and> sentEvents w1 = [(''item/U'', [Obj ''brick/A''])]"
    using ww1[THEN conjunct1] e1 unfolding dc ev by simp
  have r2: "?s2 = (Inr (), w2) \<and> sentEvents w2 = []"
    using ww2[THEN conjunct1] e2 unfolding ev by simp
  show ?thesis
    using a ev exI[of "\<lambda>w'. ?s1 = (Inr (), w') \<and> sentEvents w' = [(''item/U'', [Obj ''brick/A''])]", OF r1]
      exI[of "\<lambda>w'. ?s2 = (Inr (), w') \<and> sentEvents w' = []", OF r2]
    by (intro conjI)
qed

text \<open>
  Claim C5 as stated fails in a world initialized without a session: \<^verbatim>\<open>brick/A\<close>
  stands on GROUND at \<open>(1, 0)\<close>, an identity is written on UNDERGROUND at \<open>(1, 0)\<close>,
  and nothing is notified.
\<close>

theorem setMapCell_without_session:
  "isInitialized worldA \<and>
   lookupByLayer worldA GROUND [(1, 0)] = Inr [Obj ''brick/A''] \<and>
   fst (setMapCell worldA (1, 0) UNDERGROUND (Some ''item/U'')) = Inr () \<and>
   lookupByLayer (snd (setMapCell worldA (1, 0) UNDERGROUND (Some ''item/U''))) UNDERGROUND [(1, 0)]
     = Inr [Obj ''item/U''] \<and>
   gameSession (snd (setMapCell worldA (1, 0) UNDERGROUND (Some ''item/U''))) = None \<and>
   sentEvents (snd (setMapCell worldA (1, 0) UNDERGROUND (Some ''item/U''))) = []"
  by code_simp

section \<open>Overlap\<close>

text \<open>
  Claim C4, as the code has it. \<^verbatim>\<open>placeObject\<close> on a registered object of an
  initialized world (its buffer of the constructor's shape), with the target rectangle
  inside the world, throws the overlap error exactly when some target cell reads
  non-empty on the object's layer, whatever identity it holds. The error carries the
  object's identity and what the first such cell, in the order of the loops, holds.
\<close>

theorem placeObject_overlap_iff:
  assumes "isInitialized w" "shape_ok w" "map_of (objects w) i = Some ob"
    "\<not> outOfBounds w (obj_size ob) (resolved ob position)"
  shows "((\<exists>a x. fst (placeObject w i position) = Inl (ErrorOverlappingObject a x)) \<longleftrightarrow>
          (\<exists>c\<in>set (footprint (resolved ob position) (obj_size ob)).
             lookupByLayer w (obj_layer ob) [c] \<noteq> Inr [Null])) \<and>
         (\<forall>a x. fst (placeObject w i position) = Inl (ErrorOverlappingObject a x) \<longrightarrow>
            a = obj_id ob \<and> x \<noteq> Null \<and>
            (\<exists>pre c post. footprint (resolved ob position) (obj_size ob) = pre @ c # post \<and>
               (\<forall>q\<in>set pre. lookupByLayer w (obj_layer ob) [q] = Inr [Null]) \<and>
               lookupByLayer w (obj_layer ob) [c] = Inr [x]))"
proof -
  let ?fp = "footprint (resolved ob position) (obj_size ob)"
  let ?l = "obj_layer ob"
  let ?P = "\<lambda>q. slot (wmap w) ?l q \<noteq> Null"
  have lk: "lookupByLayer w ?l [q] = Inr [slot (wmap w) ?l q]" if "q \<in> set ?fp" for q
    using lookup_slot[OF assms(2) footprint_inWorld[OF assms(4) that]] .
  show ?thesis
  proof (cases "\<exists>c\<in>set ?fp. ?P c")
    case False
    then have nl: "\<forall>c\<in>set ?fp. slot (wmap w) ?l c = Null" by simp
    have no: "fst (placeObject w i position) \<noteq> Inl (ErrorOverlappingObject a x)" for a x
      using placeObject_free[OF assms nl] .
    have "\<not> (\<exists>c\<in>set ?fp. lookupByLayer w ?l [c] \<noteq> Inr [Null])"
      using nl lk by simp
    then show ?thesis using no by blast
  next
    case True
    then obtain pre c post where sp: "?fp = pre @ c # post" "?P c" "\<forall>q\<in>set pre. \<not> ?P q"
      using split_list_first_prop[of ?fp ?P] by blast
    have nl: "\<forall>q\<in>set pre. slot (wmap w) ?l q = Null" using sp(3) by simp
    obtain w' where w': "placeObject w i position =
        (Inl (ErrorOverlappingObject (obj_id ob) (slot (wmap w) ?l c)), w')"
      using placeObject_blocked[OF assms sp(1) nl sp(2)] by blast
    have cin: "c \<in> set ?fp" and prein: "\<forall>q\<in>set pre. q \<in> set ?fp" unfolding sp(1) by simp_all
    have "lookupByLayer w ?l [c] \<noteq> Inr [Null]" using lk[OF cin] sp(2) by simp
    then have a: "\<exists>c\<in>set ?fp. lookupByLayer w ?l [c] \<noteq> Inr [Null]"
      using cin by blast
    have b: "\<forall>q\<in>set pre. lookupByLayer w ?l [q] = Inr [Null]"
      using prein lk nl by simp
    have c: "lookupByLayer w ?l [c] = Inr [slot (wmap w) ?l c]" using lk[OF cin] .
    have d: "\<exists>pre c' post. ?fp = pre @ c' # post \<and>
        (\<forall>q\<in>set pre. lookupByLayer w ?l [q] = Inr [Null]) \<and>
        lookupByLayer w ?l [c'] = Inr [slot (wmap w) ?l c]"
      using sp(1) b c by blast
    show ?thesis
      unfolding w' using a d sp(2) by simp
  qed
qed

theorem placeObject_overlap_iff_witness:
  "(\<exists>x. fst (placeObject worldAB ''brick/B'' None) = Inl (ErrorOverlappingObject ''brick/B'' x)) \<and>
   lookupByLayer worldAB GROUND [(1, 0)] \<noteq> Inr [Null] \<and>
   footprint (0, 0) (2, 1) = [(0, 0), (1, 0)]"
proof -
  let ?ob = "wideB\<lparr>obj_isInitialized := True\<rparr>"
  have i: "isInitialized worldAB" by code_simp
  have sh: "shape_ok worldAB" by code_simp
  have r: "map_of (objects worldAB) ''brick/B'' = Some ?ob" by code_simp
  have p: "resolved ?ob None = (0, 0)" "obj_size ?ob = (2, 1)" "obj_layer ?ob = GROUND"
    "obj_id ?ob = ''brick/B''" by code_simp+
  have nb: "\<not> outOfBounds worldAB (obj_size ?ob) (resolved ?ob None)" by code_simp
  have fp: "footprint (0, 0) (2, 1) = [(0, 0), (1, 0)]" by code_simp
  have oc: "lookupByLayer worldAB GROUND [(1, 0)] \<noteq> Inr [Null]" by code_simp
  note t = placeObject_overlap_iff[OF i sh r nb, unfolded p fp]
  have "\<exists>a x. fst (placeObject worldAB ''brick/B'' None) = Inl (ErrorOverlappingObject a x)"
    using t oc by simp
  then show ?thesis using t oc fp by blast
qed

text \<open>
  Claim C4 as stated fails when the target cell holds the object's own identity:
  placing the placed \<^verbatim>\<open>brick/A\<close> again throws the overlap error with \<^verbatim>\<open>brick/A\<close>
  twice.
\<close>

theorem placeObject_own_identity_raises:
  "isInitialized worldA \<and>
   map_of (objects worldA) ''brick/A'' = Some (brickA\<lparr>obj_isInitialized := True\<rparr>) \<and>
   footprint (obj_position brickA) (obj_size brickA) = [(1, 0)] \<and>
   \<not> outOfBounds worldA (obj_size brickA) (obj_position brickA) \<and>
   lookupByLayer worldA GROUND [(1, 0)] = Inr [Obj ''brick/A''] \<and>
   fst (placeObject worldA ''brick/A'' None) = Inl (ErrorOverlappingObject ''brick/A'' (Obj ''brick/A''))"
  by code_simp

text \<open>
  Claim C2, as the code has it. A registered object is placed in an initialized world
  (its buffer of the constructor's shape) with the target rectangle inside the world.
  The rectangle, in the order of the loops, is \<open>pre @ c # post\<close>, the cells of \<open>pre\<close>
  are empty and \<open>c\<close> holds \<open>e\<close>. Then
  \<^verbatim>\<open>placeObject\<close> throws the overlap error with the object's identity and \<open>e\<close>; the
  cells of \<open>pre\<close> hold the object's identity afterwards and every other slot of the
  buffer is as before. The buffer is unchanged when \<open>pre\<close> is empty.
\<close>

theorem placeObject_overlap_partial:
  assumes "isInitialized w" "shape_ok w" "map_of (objects w) i = Some ob"
    "\<not> outOfBounds w (obj_size ob) (resolved ob position)"
    "footprint (resolved ob position) (obj_size ob) = pre @ c # post"
    "\<forall>q\<in>set pre. lookupByLayer w (obj_layer ob) [q] = Inr [Null]"
    "lookupByLayer w (obj_layer ob) [c] = Inr [Obj e]"
  shows "\<exists>w'. placeObject w i position = (Inl (ErrorOverlappingObject (obj_id ob) (Obj e)), w') \<and>
     (\<forall>q\<in>set pre. lookupByLayer w' (obj_layer ob) [q] = Inr [Obj (obj_id ob)]) \<and>
     (\<forall>r k. (r, k) \<notin> slotIndex (obj_layer ob) ` set pre \<longrightarrow>
        readSlot (wmap w') r k = readSlot (wmap w) r k) \<and>
     (pre = [] \<longrightarrow> wmap w' = wmap w)"
proof -
  let ?fp = "footprint (resolved ob position) (obj_size ob)"
  let ?l = "obj_layer ob"
  have inw: "inWorld w q" if "q \<in> set ?fp" for q
    using footprint_inWorld[OF assms(4) that] .
  have cin: "c \<in> set ?fp" and prein: "\<forall>q\<in>set pre. q \<in> set ?fp" unfolding assms(5) by simp_all
  have nl: "\<forall>q\<in>set pre. slot (wmap w) ?l q = Null"
  proof
    fix q assume q: "q \<in> set pre"
    then have "q \<in> set ?fp" using prein by simp
    then show "slot (wmap w) ?l q = Null"
      using lookup_slot[OF assms(2) inw, of q ?l] assms(6) q by simp
  qed
  have sc: "slot (wmap w) ?l c = Obj e"
    using lookup_slot[OF assms(2) inw[OF cin], of ?l] assms(7) by simp
  then have oc: "slot (wmap w) ?l c \<noteq> Null" by simp
  obtain w' where w': "placeObject w i position =
        (Inl (ErrorOverlappingObject (obj_id ob) (slot (wmap w) ?l c)), w')"
      "wmap w' = putCells (wmap w) ?l pre (Obj (obj_id ob))"
      "width w' = width w" "height w' = height w" "shape_ok w'"
    using placeObject_blocked[OF assms(1-5) nl oc] by blast
  have preW: "\<forall>q\<in>set pre. inWorld w q" using prein inw by simp
  have a: "\<forall>q\<in>set pre. lookupByLayer w' ?l [q] = Inr [Obj (obj_id ob)]"
  proof
    fix q assume q: "q \<in> set pre"
    then have "inWorld w' q" using preW w'(3,4) by (simp add: inWorld_def)
    then show "lookupByLayer w' ?l [q] = Inr [Obj (obj_id ob)]"
      using lookup_slot[OF w'(5), of q ?l] slot_putCells_in[OF assms(2) preW q, of ?l "Obj (obj_id ob)"]
        w'(2) by simp
  qed
  have nn: "\<forall>q\<in>set pre. 0 \<le> fst q \<and> 0 \<le> snd q" using preW by (simp add: inWorld_def)
  have b: "\<forall>r k. (r, k) \<notin> slotIndex ?l ` set pre \<longrightarrow> readSlot (wmap w') r k = readSlot (wmap w) r k"
    using readSlot_putCells_other[OF nn] w'(2) by simp
  have c: "pre = [] \<longrightarrow> wmap w' = wmap w" using w'(2) by (simp add: putCells_Nil)
  show ?thesis using w'(1) sc a b c by auto
qed

theorem placeObject_overlap_partial_witness:
  "\<exists>w'. placeObject worldAB ''brick/B'' None
          = (Inl (ErrorOverlappingObject ''brick/B'' (Obj ''brick/A'')), w') \<and>
        lookupByLayer w' GROUND [(0, 0)] = Inr [Obj ''brick/B''] \<and>
        lookupByLayer w' GROUND [(1, 0)] = Inr [Obj ''brick/A'']"
proof -
  let ?ob = "wideB\<lparr>obj_isInitialized := True\<rparr>"
  have i: "isInitialized worldAB" by code_simp
  have sh: "shape_ok worldAB" by code_simp
  have r: "map_of (objects worldAB) ''brick/B'' = Some ?ob" by code_simp
  have p: "obj_layer ?ob = GROUND" "obj_id ?ob = ''brick/B''" by code_simp+
  have nb: "\<not> outOfBounds worldAB (obj_size ?ob) (resolved ?ob None)" by code_simp
  have fp: "footprint (resolved ?ob None) (obj_size ?ob) = [(0, 0)] @ (1, 0) # []" by code_simp
  have e: "\<forall>q\<in>set [(0, 0)]. lookupByLayer worldAB (obj_layer ?ob) [q] = Inr [Null]" by code_simp
  have oc: "lookupByLayer worldAB (obj_layer ?ob) [(1, 0)] = Inr [Obj ''brick/A'']" by code_simp
  have after: "fst (placeObject worldAB ''brick/B'' None) = Inl (ErrorOverlappingObject ''brick/B'' (Obj ''brick/A''))"
    "lookupByLayer (snd (placeObject worldAB ''brick/B'' None)) GROUND [(1, 0)] = Inr [Obj ''brick/A'']"
    by code_simp+
  obtain w' where w': "placeObject worldAB ''brick/B'' None
          = (Inl (ErrorOverlappingObject (obj_id ?ob) (Obj ''brick/A'')), w')"
     "\<forall>q\<in>set [(0, 0)]. lookupByLayer w' (obj_layer ?ob) [q] = Inr [Obj (obj_id ?ob)]"
    using placeObject_overlap_partial[OF i sh r nb fp e oc] by blast
  have "lookupByLayer w' GROUND [(0, 0)] = Inr [Obj ''brick/B'']"
    using w'(2) unfolding p by simp
  moreover have "lookupByLayer w' GROUND [(1, 0)] = Inr [Obj ''brick/A'']"
    using after(2) w'(1) by simp
  ultimately show ?thesis using w'(1) unfolding p by blast
qed

text \<open>
  Claim C2 as stated fails: \<^verbatim>\<open>brick/B\<close>, two cells wide, is placed at \<open>(0, 0)\<close> while
  \<^verbatim>\<open>brick/A\<close> stands at \<open>(1, 0)\<close>. The overlap error is thrown and \<open>(0, 0)\<close> keeps
  the identity of \<^verbatim>\<open>brick/B\<close>.
\<close>

theorem placeObject_overlap_not_atomic:
  "map_of (objects worldA) ''brick/A'' \<noteq> None \<and>
   lookupByLayer worldAB GROUND [(0, 0), (1, 0)] = Inr [Null, Obj ''brick/A''] \<and>
   fst (placeObject worldAB ''brick/B'' None)
     = Inl (ErrorOverlappingObject ''brick/B'' (Obj ''brick/A'')) \<and>
   lookupByLayer (snd (placeObject worldAB ''brick/B'' None)) GROUND [(0, 0), (1, 0)]
     = Inr [Obj ''brick/B'', Obj ''brick/A''] \<and>
   wmap (snd (placeObject worldAB ''brick/B'' None)) \<noteq> wmap worldAB"
  by code_simp

end
